theory Spec2Isabelle
  imports Main
begin

section \<open>JavaScript strings and the three regular expressions\<close>

text \<open>
  A JavaScript string is a sequence of UTF-16 code units. A code unit is modelled as a
  natural number, so that the character classes of the regular expressions are exactly
  the ones of the language. \<open>js\<close> turns a literal into its code units.
\<close>

type_synonym jsstring = "nat list"

definition js :: "string \<Rightarrow> jsstring" where
  "js s = map of_char s"

text \<open>\<^verbatim>\<open>\d\<close>: the ten ASCII digits.\<close>

definition isDigit :: "nat \<Rightarrow> bool" where
  "isDigit c = (48 \<le> c \<and> c \<le> 57)"

text \<open>
  \<^verbatim>\<open>\s\<close>: the white space and line terminator code units of ECMAScript
  (TAB, LF, VT, FF, CR, SP, NBSP, U+1680, U+2000..U+200A, U+2028, U+2029, U+202F, U+205F,
  U+3000, U+FEFF).
\<close>

definition isSpace :: "nat \<Rightarrow> bool" where
  "isSpace c = (c \<in> {9, 10, 11, 12, 13, 32, 160, 5760, 8232, 8233, 8239, 8287, 12288, 65279}
                \<or> (8192 \<le> c \<and> c \<le> 8202))"

text \<open>\<^verbatim>\<open>s.startsWith(p)\<close> and \<^verbatim>\<open>s.includes(p)\<close>.\<close>

definition startsWith :: "jsstring \<Rightarrow> jsstring \<Rightarrow> bool" where
  "startsWith s p = (take (length p) s = p)"

fun includes_js :: "jsstring \<Rightarrow> jsstring \<Rightarrow> bool" where
  "includes_js [] p = (p = [])"
| "includes_js (c # cs) p = (startsWith (c # cs) p \<or> includes_js cs p)"

subsection \<open>\<^verbatim>\<open>subject.match(/Expensify magic code:\s*(\d+)/)\<close>\<close>

definition label :: jsstring where
  "label = js ''Expensify magic code:''"

text \<open>
  An attempt of the pattern at the start of \<open>s\<close>: the label, then white space, then at
  least one digit. The two classes are disjoint and both quantifiers are greedy, so the
  attempt succeeds exactly when a digit follows the longest run of white space, and the
  group captures the longest run of digits.
\<close>

definition codeMatchHere :: "jsstring \<Rightarrow> jsstring option" where
  "codeMatchHere s =
     (if startsWith s label
      then (let digits = takeWhile isDigit (dropWhile isSpace (drop (length label) s))
            in if digits = [] then None else Some digits)
      else None)"

text \<open>The leftmost position where an attempt succeeds; the value is capture group 1.\<close>

fun codeMatch :: "jsstring \<Rightarrow> jsstring option" where
  "codeMatch [] = None"
| "codeMatch (c # cs) =
     (case codeMatchHere (c # cs) of
        Some digits \<Rightarrow> Some digits
      | None \<Rightarrow> codeMatch cs)"

subsection \<open>\<^verbatim>\<open>text.match(/(\d{6})/)\<close>\<close>

definition sixDigitsHere :: "jsstring \<Rightarrow> bool" where
  "sixDigitsHere s = (6 \<le> length s \<and> list_all isDigit (take 6 s))"

fun bodyCodeMatch :: "jsstring \<Rightarrow> jsstring option" where
  "bodyCodeMatch [] = None"
| "bodyCodeMatch (c # cs) =
     (if sixDigitsHere (c # cs) then Some (take 6 (c # cs)) else bodyCodeMatch cs)"

subsection \<open>\<^verbatim>\<open>email.replace(/\+[^@]+@/, '@')\<close>\<close>

definition plusSign :: nat where
  "plusSign = of_char CHR ''+''"

definition atSign :: nat where
  "atSign = of_char CHR ''@''"

text \<open>
  An attempt of \<^verbatim>\<open>[^@]+@\<close> on the text after a plus sign: it succeeds when the text up
  to the first at sign is not empty and the at sign is there; the result is what follows
  the at sign.
\<close>

definition tagHere :: "jsstring \<Rightarrow> jsstring option" where
  "tagHere s =
     (let tag = takeWhile (\<lambda>c. c \<noteq> atSign) s; rest = dropWhile (\<lambda>c. c \<noteq> atSign) s
      in if tag \<noteq> [] \<and> rest \<noteq> [] then Some (tl rest) else None)"

text \<open>Only the leftmost match is replaced (the pattern has no \<^verbatim>\<open>g\<close> flag).\<close>

fun stripEmailTag :: "jsstring \<Rightarrow> jsstring" where
  "stripEmailTag [] = []"
| "stripEmailTag (c # cs) =
     (if c = plusSign
      then (case tagHere cs of
              Some rest \<Rightarrow> atSign # rest
            | None \<Rightarrow> c # stripEmailTag cs)
      else c # stripEmailTag cs)"

section \<open>The mailbox poller (email-monitor.ts)\<close>

subsection \<open>Messages and extraction\<close>

text \<open>
  What \<^verbatim>\<open>simpleParser\<close> returns for one message. A date is the number of milliseconds
  since the epoch. A message whose \<^verbatim>\<open>Date\<close> is invalid does not reach this record:
  \<^verbatim>\<open>emailDate?.toISOString()\<close> in the log line throws for it inside the \<^verbatim>\<open>try\<close>
  block, which is the \<open>ParseError\<close> case below.
\<close>

record parsed_mail =
  subject :: "jsstring option"
  date :: "int option"
  text_part :: "jsstring option"
  html :: "jsstring option"

datatype parse_result = ParseError | Parsed parsed_mail

text \<open>
  One fetched message: the sequence number, the UID given by the \<^verbatim>\<open>attributes\<close> event
  (\<open>None\<close> when the one second fallback timer fires first), and the outcome of parsing
  its body.
\<close>

record message =
  seqno :: nat
  attrs_uid :: "nat option"
  parsed :: parse_result

text \<open>\<^verbatim>\<open>parsed.subject || ""\<close> and \<^verbatim>\<open>parsed.text || parsed.html || ""\<close>.\<close>

definition subjectOf :: "parsed_mail \<Rightarrow> jsstring" where
  "subjectOf p = (case subject p of None \<Rightarrow> [] | Some s \<Rightarrow> s)"

definition bodyText :: "parsed_mail \<Rightarrow> jsstring" where
  "bodyText p =
     (case text_part p of
        Some t \<Rightarrow> if t \<noteq> [] then t else (case html p of None \<Rightarrow> [] | Some h \<Rightarrow> h)
      | None \<Rightarrow> (case html p of None \<Rightarrow> [] | Some h \<Rightarrow> h))"

text \<open>The value of the variable \<^verbatim>\<open>code\<close> after lines 286 to 303.\<close>

definition extractCode :: "parsed_mail \<Rightarrow> jsstring option" where
  "extractCode p =
     (case codeMatch (subjectOf p) of
        Some c \<Rightarrow> Some c
      | None \<Rightarrow> bodyCodeMatch (bodyText p))"

subsection \<open>One poll cycle: \<^verbatim>\<open>findCode\<close>\<close>

text \<open>
  Errors are values. \<open>External n\<close> is an error object made by a library (the IMAP client,
  the browser driver), told apart by \<open>n\<close>; the others are the errors the repository
  itself constructs: the timeout of \<^verbatim>\<open>waitForCode\<close>, the two errors by which \<^verbatim>\<open>connect\<close>
  replaces an app-password and an authentication failure, and the errors of the browser
  driver.
\<close>

datatype error =
    TimeoutWaitingForEmail
  | AppPasswordRequired
  | AuthenticationFailed
  | BrowserNotInitialized
  | EmailInputNotFound
  | External nat

text \<open>An entry of \<^verbatim>\<open>validEmails\<close>.\<close>

record valid_email =
  uid :: nat
  code :: jsstring
  emailDate :: int

text \<open>How the promise of \<^verbatim>\<open>findCode\<close> is settled.\<close>

datatype find_outcome = Resolved "jsstring option" | Rejected error

text \<open>
  The variables the handlers of one \<^verbatim>\<open>findCode\<close> call share, the settlement of its
  promise (\<open>None\<close> while it is pending) and the UIDs passed to
  \<^verbatim>\<open>imap.addFlags(uid, "\\Seen", ...)\<close>, in call order.
\<close>

record find_state =
  pendingCount :: int
  validEmails :: "valid_email list"
  resolved :: bool
  settled :: "find_outcome option"
  addFlags :: "nat list"

text \<open>
  \<^verbatim>\<open>validEmails.sort((a, b) => b.date.getTime() - a.date.getTime())\<close>: latest first;
  the sort of the language is stable, and so is \<open>sort_key\<close>.
\<close>

definition sortByDateDesc :: "valid_email list \<Rightarrow> valid_email list" where
  "sortByDateDesc vs = sort_key (\<lambda>v. - emailDate v) vs"

text \<open>
  The block that follows every \<^verbatim>\<open>pendingCount--\<close> (the source repeats it in its four
  branches, with the same statements).
\<close>

definition finishIfLast :: "find_state \<Rightarrow> find_state" where
  "finishIfLast s =
     (if pendingCount s = 0 \<and> \<not> resolved s
      then (if validEmails s \<noteq> []
            then (let sorted = sortByDateDesc (validEmails s); best = hd sorted
                  in s\<lparr>validEmails := sorted,
                       addFlags := (if uid best \<noteq> 0 then addFlags s @ [uid best] else addFlags s),
                       resolved := True,
                       settled := Some (Resolved (Some (code best)))\<rparr>)
            else s\<lparr>resolved := True, settled := Some (Resolved None)\<rparr>)
      else s)"

definition decrement :: "find_state \<Rightarrow> find_state" where
  "decrement s = s\<lparr>pendingCount := pendingCount s - 1\<rparr>"

text \<open>\<^verbatim>\<open>sinceTime && emailDate && emailDate < sinceTime\<close>\<close>

definition beforeSince :: "int option \<Rightarrow> int option \<Rightarrow> bool" where
  "beforeSince sinceTime d =
     (case sinceTime of
        None \<Rightarrow> False
      | Some t \<Rightarrow> (case d of None \<Rightarrow> False | Some e \<Rightarrow> e < t))"

text \<open>The handler of the \<^verbatim>\<open>body\<close> event of one message.\<close>

definition onBody :: "int option \<Rightarrow> message \<Rightarrow> find_state \<Rightarrow> find_state" where
  "onBody sinceTime msg s =
     (case attrs_uid msg of
        None \<Rightarrow> finishIfLast (decrement s)
      | Some u \<Rightarrow>
          if u = 0 then finishIfLast (decrement s)
          else (case parsed msg of
                  ParseError \<Rightarrow> finishIfLast (decrement s)
                | Parsed p \<Rightarrow>
                    if beforeSince sinceTime (date p) then finishIfLast (decrement s)
                    else (case extractCode p of
                            None \<Rightarrow> finishIfLast (decrement s)
                          | Some c \<Rightarrow>
                              (case date p of
                                 None \<Rightarrow> finishIfLast (decrement s)
                               | Some d \<Rightarrow>
                                   if c \<noteq> []
                                   then finishIfLast (decrement
                                          (s\<lparr>validEmails := validEmails s @
                                               [\<lparr>uid = u, code = c, emailDate = d\<rparr>]\<rparr>))
                                   else finishIfLast (decrement s)))))"

text \<open>
  What the fetch object emits, in the order in which the handlers complete: the body of a
  message, or the \<^verbatim>\<open>error\<close> event.
\<close>

datatype fetch_event = Body message | FetchError error

definition onEvent :: "int option \<Rightarrow> find_state \<Rightarrow> fetch_event \<Rightarrow> find_state" where
  "onEvent sinceTime s ev =
     (case ev of
        Body msg \<Rightarrow> onBody sinceTime msg s
      | FetchError e \<Rightarrow>
          if \<not> resolved s then s\<lparr>resolved := True, settled := Some (Rejected e)\<rparr> else s)"

text \<open>
  The replies of the IMAP server during one cycle: the error of \<^verbatim>\<open>openBox\<close> if any, the
  reply to the search for unread messages of a sender, and the events of the fetch of a
  list of results.
\<close>

datatype search_result = SearchError error | SearchResults "nat list"

record imap_reply =
  openBox :: "error option"
  search :: "jsstring \<Rightarrow> search_result"
  fetch :: "nat list \<Rightarrow> fetch_event list"

definition openInbox :: "imap_reply \<Rightarrow> error option" where
  "openInbox imap = openBox imap"

text \<open>
  \<^verbatim>\<open>findCode\<close> gives the settlement of its promise (\<open>None\<close>: the promise stays pending,
  which happens when fewer bodies arrive than the search had results and no error event
  comes) and the \<^verbatim>\<open>addFlags\<close> calls it made.
\<close>

definition findCode :: "imap_reply \<Rightarrow> jsstring \<Rightarrow> int option \<Rightarrow> find_outcome option \<times> nat list" where
  "findCode imap fromEmail sinceTime =
     (case search imap fromEmail of
        SearchError e \<Rightarrow> (Some (Rejected e), [])
      | SearchResults results \<Rightarrow>
          if results = [] then (Some (Resolved None), [])
          else (let s = foldl (onEvent sinceTime)
                          \<lparr>pendingCount = int (length results), validEmails = [],
                           resolved = False, settled = None, addFlags = []\<rparr>
                          (fetch imap results)
                in (settled s, addFlags s)))"

subsection \<open>The polling loop: \<^verbatim>\<open>waitForCode\<close>\<close>

text \<open>
  One round of \<^verbatim>\<open>checkEmail\<close> as the environment answers it: the replies of the server,
  and the time in milliseconds that the round takes beyond the 2000 of the timer (network
  round trips, parsing, lateness of the timer).
\<close>

record poll =
  imap :: imap_reply
  duration :: nat

text \<open>
  The mailbox as the poller meets it: the \<^verbatim>\<open>error\<close> event of the connection, if the
  connection fails, as the error object with its text
  (\<^verbatim>\<open>err.message || err.toString()\<close>); the clock when the polling starts; the rounds.
\<close>

record mail_env =
  connectError :: "(error \<times> jsstring) option"
  startTime :: int
  polls :: "nat \<Rightarrow> poll"

record EmailConfig =
  user :: jsstring
  password :: jsstring
  host :: jsstring
  port :: nat
  tls :: bool

record EmailMonitor =
  monitorConfig :: EmailConfig
  connected :: bool

definition newEmailMonitor :: "EmailConfig \<Rightarrow> EmailMonitor" where
  "newEmailMonitor c = \<lparr>monitorConfig = c, connected = False\<rparr>"

text \<open>The two tests of the \<^verbatim>\<open>error\<close> handler of \<^verbatim>\<open>connect\<close> on the text of the error.\<close>

definition isAppPasswordError :: "jsstring \<Rightarrow> bool" where
  "isAppPasswordError errorMessage =
     (includes_js errorMessage (js ''Application-specific password required'')
      \<or> (includes_js errorMessage (js ''ALERT'') \<and> includes_js errorMessage (js ''185833'')))"

definition isAuthenticationError :: "jsstring \<Rightarrow> bool" where
  "isAuthenticationError errorMessage =
     (includes_js errorMessage (js ''Invalid credentials'')
      \<or> includes_js errorMessage (js ''AUTHENTICATIONFAILED'')
      \<or> includes_js errorMessage (js ''authentication''))"

text \<open>
  \<^verbatim>\<open>connect\<close> returns at once when connected. Otherwise, on the \<^verbatim>\<open>ready\<close> event it sets
  \<^verbatim>\<open>connected\<close>; on the \<^verbatim>\<open>error\<close> event it rejects with a new error for an
  app-password failure, with another new error for an authentication failure, and with the
  error of the connection itself in every other case.
\<close>

definition connect :: "mail_env \<Rightarrow> EmailMonitor \<Rightarrow> error option \<times> EmailMonitor" where
  "connect env m =
     (if connected m then (None, m)
      else (case connectError env of
              Some (err, errorMessage) \<Rightarrow>
                if isAppPasswordError errorMessage then (Some AppPasswordRequired, m)
                else if isAuthenticationError errorMessage then (Some AuthenticationFailed, m)
                else (Some err, m)
            | None \<Rightarrow> (None, m\<lparr>connected := True\<rparr>)))"

definition disconnect :: "EmailMonitor \<Rightarrow> EmailMonitor" where
  "disconnect m = (if connected m then m\<lparr>connected := False\<rparr> else m)"

text \<open>
  The promise of \<^verbatim>\<open>waitForCode\<close>: resolved with a code, rejected with an error, or
  pending for ever. With it, the clock when it was settled and every \<^verbatim>\<open>addFlags\<close> call
  of the invocation.
\<close>

datatype wait_result = Code jsstring | Failed error | Pending

record wait_outcome =
  result :: wait_result
  endTime :: int
  flagged :: "nat list"

text \<open>
  \<^verbatim>\<open>checkEmail\<close>, run for the \<open>k\<close>-th time when the clock shows \<open>now\<close>. The next run is
  scheduled by \<^verbatim>\<open>setTimeout(checkEmail, 2000)\<close>.
\<close>

function checkEmail ::
  "(nat \<Rightarrow> poll) \<Rightarrow> jsstring \<Rightarrow> int \<Rightarrow> int option \<Rightarrow> int \<Rightarrow> nat \<Rightarrow> int \<Rightarrow> nat list \<Rightarrow> wait_outcome" where
  "checkEmail ps sender maxWaitTime sinceTime start k now flags =
     (if now - start > maxWaitTime
      then \<lparr>result = Failed TimeoutWaitingForEmail, endTime = now, flagged = flags\<rparr>
      else (case openInbox (imap (ps k)) of
              Some e \<Rightarrow>
                \<lparr>result = Failed e, endTime = now + int (duration (ps k)), flagged = flags\<rparr>
            | None \<Rightarrow>
                (case findCode (imap (ps k)) sender sinceTime of
                   (None, fl) \<Rightarrow>
                     \<lparr>result = Pending, endTime = now + int (duration (ps k)),
                      flagged = flags @ fl\<rparr>
                 | (Some (Rejected e), fl) \<Rightarrow>
                     \<lparr>result = Failed e, endTime = now + int (duration (ps k)),
                      flagged = flags @ fl\<rparr>
                 | (Some (Resolved None), fl) \<Rightarrow>
                     checkEmail ps sender maxWaitTime sinceTime start (Suc k)
                       (now + int (duration (ps k)) + 2000) (flags @ fl)
                 | (Some (Resolved (Some c)), fl) \<Rightarrow>
                     if c \<noteq> []
                     then \<lparr>result = Code c, endTime = now + int (duration (ps k)),
                           flagged = flags @ fl\<rparr>
                     else checkEmail ps sender maxWaitTime sinceTime start (Suc k)
                            (now + int (duration (ps k)) + 2000) (flags @ fl))))"
  by pat_completeness auto
termination
  by (relation "measure (\<lambda>(ps, sender, maxWaitTime, sinceTime, start, k, now, flags).
                  nat (maxWaitTime - (now - start) + 1))") auto

definition waitForCode ::
  "mail_env \<Rightarrow> EmailMonitor \<Rightarrow> jsstring \<Rightarrow> int \<Rightarrow> int option \<Rightarrow> wait_outcome" where
  "waitForCode env m sender maxWaitTime sinceTime =
     (case connect env m of
        (Some e, m') \<Rightarrow> \<lparr>result = Failed e, endTime = startTime env, flagged = []\<rparr>
      | (None, m') \<Rightarrow>
          checkEmail (polls env) sender maxWaitTime sinceTime (startTime env) 0
            (startTime env) [])"

section \<open>The browser driver (web-automation.ts): \<^verbatim>\<open>enterEmail\<close>\<close>

text \<open>
  What the page answers: \<^verbatim>\<open>waitForSelector\<close> returns a handle, returns null or throws
  at its timeout; \<^verbatim>\<open>$\<close> followed by \<^verbatim>\<open>click\<close> finds nothing, clicks, or throws;
  \<^verbatim>\<open>fill\<close> and \<^verbatim>\<open>press\<close> may throw.
\<close>

datatype selector_wait = ElementFound | NoElement | SelectorTimeout

datatype query_click = NoButton | Clicked | ClickFailed

record page =
  url :: jsstring
  waitForSelector :: "jsstring \<Rightarrow> selector_wait"
  fillError :: "jsstring \<Rightarrow> error option"
  queryClick :: "jsstring \<Rightarrow> query_click"
  pressError :: "jsstring \<Rightarrow> error option"

datatype action =
    Fill jsstring jsstring
  | Click jsstring
  | Press jsstring jsstring
  | WaitForTimeout nat

definition emailSelectors :: "jsstring list" where
  \<open>emailSelectors =
     [js ''input[type="email"]'',
      js ''input[name="email"]'',
      js ''input[id*="email"]'',
      js ''input[placeholder*="email" i]'',
      js ''input[placeholder*="Email" i]'']\<close>

definition submitSelectors :: "jsstring list" where
  \<open>submitSelectors =
     [js ''button[type="submit"]'',
      js ''button:has-text("Continue")'',
      js ''button:has-text("Send")'',
      js ''button:has-text("Next")'',
      js ''[role="button"]:has-text("Continue")'']\<close>

text \<open>The first loop: is \<^verbatim>\<open>emailInput\<close> set when it ends?\<close>

fun findEmailInput :: "page \<Rightarrow> jsstring list \<Rightarrow> bool" where
  "findEmailInput p [] = False"
| "findEmailInput p (selector # rest) =
     (case waitForSelector p selector of
        ElementFound \<Rightarrow> True
      | NoElement \<Rightarrow> findEmailInput p rest
      | SelectorTimeout \<Rightarrow> findEmailInput p rest)"

text \<open>The second loop: the selector whose button was clicked, if any.\<close>

fun clickSubmit :: "page \<Rightarrow> jsstring list \<Rightarrow> jsstring option" where
  "clickSubmit p [] = None"
| "clickSubmit p (selector # rest) =
     (case queryClick p selector of
        Clicked \<Rightarrow> Some selector
      | NoButton \<Rightarrow> clickSubmit p rest
      | ClickFailed \<Rightarrow> clickSubmit p rest)"

text \<open>
  \<^verbatim>\<open>emailSelectors.find(s => emailInput) || emailSelectors[0]\<close> is the first selector
  whenever \<^verbatim>\<open>emailInput\<close> is set. The result is the value returned or the error thrown,
  with the actions done on the page.
\<close>

definition enterEmail :: "page option \<Rightarrow> jsstring \<Rightarrow> (error + bool) \<times> action list" where
  "enterEmail pg address =
     (case pg of
        None \<Rightarrow> (Inl BrowserNotInitialized, [])
      | Some p \<Rightarrow>
          if \<not> findEmailInput p emailSelectors
          then (if \<not> includes_js (url p) (js ''/login'') \<and> \<not> includes_js (url p) (js ''/signin'')
                then (Inr False, [])
                else (Inl EmailInputNotFound, []))
          else (case fillError p (emailSelectors ! 0) of
                  Some e \<Rightarrow> (Inl e, [])
                | None \<Rightarrow>
                    (case clickSubmit p submitSelectors of
                       Some selector \<Rightarrow>
                         (Inr True,
                          [Fill (emailSelectors ! 0) address, Click selector, WaitForTimeout 1000])
                     | None \<Rightarrow>
                         (case pressError p (emailSelectors ! 0) of
                            Some e \<Rightarrow> (Inl e, [Fill (emailSelectors ! 0) address])
                          | None \<Rightarrow>
                              (Inr True,
                               [Fill (emailSelectors ! 0) address,
                                Press (emailSelectors ! 0) (js ''Enter''),
                                WaitForTimeout 1000])))))"

section \<open>The orchestrator (auto-login.ts)\<close>

record Config =
  email :: jsstring
  emailPassword :: jsstring
  loginUrl :: jsstring
  fromEmail :: jsstring
  headless :: bool
  devtools :: bool

record AutoLogin =
  emailMonitor :: EmailMonitor
  config :: Config

text \<open>The constructor.\<close>

definition newAutoLogin :: "Config \<Rightarrow> AutoLogin" where
  "newAutoLogin c =
     (let imapEmail = stripEmailTag (email c)
      in \<lparr>emailMonitor = newEmailMonitor
             \<lparr>user = imapEmail, password = emailPassword c, host = js ''imap.gmail.com'',
              port = 993, tls = True\<rparr>,
          config = c\<rparr>)"

text \<open>
  The calls that \<^verbatim>\<open>login\<close> makes on its two collaborators, with their arguments:
  \<open>Connect\<close> carries the account of the monitor that is asked to connect, \<open>EnterEmail\<close>
  the address passed and what the call did on the page.
\<close>

datatype call =
    Connect jsstring
  | Init bool bool
  | NavigateToLogin jsstring
  | EnterEmail jsstring "action list"
  | WaitForCode jsstring int "int option"
  | EnterCode jsstring
  | WaitForLoginSuccess
  | Disconnect

text \<open>
  The environment of a run: the mailbox, the page that \<^verbatim>\<open>enterEmail\<close> finds after the
  navigation, and the errors, if any, of the browser calls that are not modelled further.
\<close>

record world =
  mail :: mail_env
  initError :: "error option"
  gotoError :: "error option"
  loginPage :: page
  enterCodeError :: "jsstring \<Rightarrow> error option"
  loginSuccessError :: "error option"

datatype login_result = Done | Threw error | Hangs

record login_outcome =
  outcome :: login_result
  calls :: "call list"
  markedRead :: "nat list"

text \<open>
  \<^verbatim>\<open>login\<close>: the steps of the \<^verbatim>\<open>try\<close> block in order; an error ends them and is
  thrown again after the \<^verbatim>\<open>finally\<close> block has called \<^verbatim>\<open>disconnect\<close>.
\<close>

definition login :: "world \<Rightarrow> AutoLogin \<Rightarrow> login_outcome" where
  "login w al =
     (let c = config al;
          t1 = [Connect (user (monitorConfig (emailMonitor al)))]
      in case connect (mail w) (emailMonitor al) of
           (Some e, m) \<Rightarrow> \<lparr>outcome = Threw e, calls = t1 @ [Disconnect], markedRead = []\<rparr>
         | (None, m) \<Rightarrow>
             (let t2 = t1 @ [Init (headless c) (devtools c)]
              in case initError w of
                   Some e \<Rightarrow> \<lparr>outcome = Threw e, calls = t2 @ [Disconnect], markedRead = []\<rparr>
                 | None \<Rightarrow>
                     (let t3 = t2 @ [NavigateToLogin (loginUrl c)]
                      in case gotoError w of
                           Some e \<Rightarrow>
                             \<lparr>outcome = Threw e, calls = t3 @ [Disconnect], markedRead = []\<rparr>
                         | None \<Rightarrow>
                             (case enterEmail (Some (loginPage w)) (email c) of
                                (Inl e, acts) \<Rightarrow>
                                  \<lparr>outcome = Threw e,
                                   calls = t3 @ [EnterEmail (email c) acts, Disconnect],
                                   markedRead = []\<rparr>
                              | (Inr entered, acts) \<Rightarrow>
                                  (let t5 = t3 @ [EnterEmail (email c) acts,
                                                  WaitForCode (fromEmail c) 60000 None];
                                       wo = waitForCode (mail w) m (fromEmail c) 60000 None
                                   in case result wo of
                                        Pending \<Rightarrow>
                                          \<lparr>outcome = Hangs, calls = t5,
                                           markedRead = flagged wo\<rparr>
                                      | Failed e \<Rightarrow>
                                          \<lparr>outcome = Threw e, calls = t5 @ [Disconnect],
                                           markedRead = flagged wo\<rparr>
                                      | Code cd \<Rightarrow>
                                          (let t6 = t5 @ [EnterCode cd]
                                           in case enterCodeError w cd of
                                                Some e \<Rightarrow>
                                                  \<lparr>outcome = Threw e,
                                                   calls = t6 @ [Disconnect],
                                                   markedRead = flagged wo\<rparr>
                                              | None \<Rightarrow>
                                                  (case loginSuccessError w of
                                                     Some e \<Rightarrow>
                                                       \<lparr>outcome = Threw e,
                                                        calls = t6 @ [WaitForLoginSuccess,
                                                                      Disconnect],
                                                        markedRead = flagged wo\<rparr>
                                                   | None \<Rightarrow>
                                                       \<lparr>outcome = Done,
                                                        calls = t6 @ [WaitForLoginSuccess,
                                                                      Disconnect],
                                                        markedRead = flagged wo\<rparr>)))))))"

section \<open>Notions used in the statements\<close>

text \<open>
  The entry that the handler of a message appends to \<^verbatim>\<open>validEmails\<close>, if it appends one,
  and the entries of a list of messages in the order of their handlers.
\<close>

definition candidate :: "int option \<Rightarrow> message \<Rightarrow> valid_email option" where
  "candidate sinceTime msg =
     (case attrs_uid msg of
        None \<Rightarrow> None
      | Some u \<Rightarrow>
          (case parsed msg of
             ParseError \<Rightarrow> None
           | Parsed p \<Rightarrow>
               (case extractCode p of
                  None \<Rightarrow> None
                | Some c \<Rightarrow>
                    (case date p of
                       None \<Rightarrow> None
                     | Some d \<Rightarrow>
                         if u \<noteq> 0 \<and> c \<noteq> [] \<and> \<not> beforeSince sinceTime (Some d)
                         then Some \<lparr>uid = u, code = c, emailDate = d\<rparr>
                         else None))))"

definition candidates :: "int option \<Rightarrow> message list \<Rightarrow> valid_email list" where
  "candidates sinceTime msgs = List.map_filter (candidate sinceTime) msgs"

text \<open>
  What the block of \<open>finishIfLast\<close> resolves with, and the UIDs it passes to
  \<^verbatim>\<open>addFlags\<close>, as a function of \<^verbatim>\<open>validEmails\<close>.
\<close>

definition selectBest :: "valid_email list \<Rightarrow> find_outcome \<times> nat list" where
  "selectBest vs =
     (if vs = [] then (Resolved None, [])
      else (let best = hd (sortByDateDesc vs)
            in (Resolved (Some (code best)), if uid best \<noteq> 0 then [uid best] else [])))"

text \<open>
  The specification's reading of the fallback rule, in its own words: the first standalone
  run of exactly six digits. A standalone run is a maximal run of digits.
\<close>

function digitRuns :: "jsstring \<Rightarrow> jsstring list" where
  "digitRuns [] = []"
| "digitRuns (c # cs) =
     (if isDigit c
      then takeWhile isDigit (c # cs) # digitRuns (dropWhile isDigit cs)
      else digitRuns cs)"
  by pat_completeness auto
termination
  by (relation "measure length") (auto simp: le_imp_less_Suc length_dropWhile_le)

definition firstStandaloneSix :: "jsstring \<Rightarrow> jsstring option" where
  "firstStandaloneSix s = find (\<lambda>r. length r = 6) (digitRuns s)"

text \<open>
  Concrete mailboxes for the examples: a message with a UID, a subject, a date and a
  plain-text body; a server that finds and delivers a given list of unread messages; a
  mailbox that shows the list \<open>inbox k\<close> in round \<open>k\<close>, each round taking no time.
\<close>

definition received :: "nat \<Rightarrow> jsstring \<Rightarrow> int \<Rightarrow> jsstring \<Rightarrow> message" where
  "received u subj d txt =
     \<lparr>seqno = u, attrs_uid = Some u,
      parsed = Parsed \<lparr>subject = Some subj, date = Some d, text_part = Some txt, html = None\<rparr>\<rparr>"

definition unparsable :: "nat \<Rightarrow> message" where
  "unparsable u = \<lparr>seqno = u, attrs_uid = Some u, parsed = ParseError\<rparr>"

definition deliver :: "message list \<Rightarrow> imap_reply" where
  "deliver msgs =
     \<lparr>openBox = None, search = (\<lambda>sender. SearchResults (map seqno msgs)),
      fetch = (\<lambda>results. map Body msgs)\<rparr>"

definition mailbox :: "int \<Rightarrow> (nat \<Rightarrow> message list) \<Rightarrow> mail_env" where
  "mailbox t0 inbox =
     \<lparr>connectError = None, startTime = t0,
      polls = (\<lambda>k. \<lparr>imap = deliver (inbox k), duration = 0\<rparr>)\<rparr>"

text \<open>
  A concrete run for the examples: a login page whose first email selector and first
  submit selector match, and a world around a mailbox in which every browser call
  succeeds.
\<close>

definition loginForm :: page where
  "loginForm =
     \<lparr>url = js ''https://new.expensify.com/'',
      waitForSelector = (\<lambda>selector. if selector = emailSelectors ! 0 then ElementFound
                                     else SelectorTimeout),
      fillError = (\<lambda>selector. None),
      queryClick = (\<lambda>selector. if selector = submitSelectors ! 0 then Clicked else NoButton),
      pressError = (\<lambda>selector. None)\<rparr>"

definition smoothWorld :: "mail_env \<Rightarrow> world" where
  "smoothWorld env =
     \<lparr>mail = env, initError = None, gotoError = None, loginPage = loginForm,
      enterCodeError = (\<lambda>cd. None), loginSuccessError = None\<rparr>"

section \<open>Evaluation of concrete inputs\<close>

lemmas eval_defs = js_def codeMatchHere_def label_def startsWith_def isDigit_def isSpace_def
  sixDigitsHere_def tagHere_def plusSign_def atSign_def subjectOf_def bodyText_def extractCode_def

lemmas run_defs = waitForCode_def connect_def newEmailMonitor_def mailbox_def deliver_def
  received_def unparsable_def openInbox_def checkEmail.simps findCode_def onEvent_def onBody_def
  finishIfLast_def decrement_def beforeSince_def sortByDateDesc_def candidates_def candidate_def
  List.map_filter_simps

section \<open>Code extraction\<close>

subsection \<open>The body pattern in terms of digit runs\<close>

lemma take_takeWhile_long:
  "n \<le> length (takeWhile P s) \<Longrightarrow> take n s = take n (takeWhile P s)"
proof -
  assume h: "n \<le> length (takeWhile P s)"
  have "take n s = take n (takeWhile P s @ dropWhile P s)" by simp
  also have "\<dots> = take n (takeWhile P s)" using h by (simp del: takeWhile_dropWhile_id)
  finally show ?thesis .
qed

lemma sixDigitsHere_iff: "sixDigitsHere s \<longleftrightarrow> 6 \<le> length (takeWhile isDigit s)"
proof
  assume h: "sixDigitsHere s"
  then have all: "\<forall>x\<in>set (take 6 s). isDigit x" and len: "length (take 6 s) = 6"
    by (simp_all add: sixDigitsHere_def list_all_iff)
  have "takeWhile isDigit (take 6 s @ drop 6 s) = take 6 s @ takeWhile isDigit (drop 6 s)"
    by (rule takeWhile_append2) (use all in blast)
  then have "length (takeWhile isDigit s) = 6 + length (takeWhile isDigit (drop 6 s))"
    using len by simp
  then show "6 \<le> length (takeWhile isDigit s)" by simp
next
  assume h: "6 \<le> length (takeWhile isDigit s)"
  have "take 6 s = take 6 (takeWhile isDigit s)"
    using h by (rule take_takeWhile_long)
  moreover have "6 \<le> length s"
    using h length_takeWhile_le[of isDigit s] by linarith
  ultimately show "sixDigitsHere s"
    by (auto simp: sixDigitsHere_def list_all_iff dest!: in_set_takeD dest: set_takeWhileD)
qed

lemma bodyCodeMatch_short_run:
  "length (takeWhile isDigit s) < 6 \<Longrightarrow> bodyCodeMatch s = bodyCodeMatch (dropWhile isDigit s)"
proof (induction s)
  case Nil
  then show ?case by simp
next
  case (Cons c cs)
  show ?case
  proof (cases "isDigit c")
    case True
    with Cons.prems have "length (takeWhile isDigit cs) < 6" by simp
    moreover have "\<not> sixDigitsHere (c # cs)"
      using Cons.prems by (simp add: sixDigitsHere_iff)
    ultimately show ?thesis using Cons.IH True by simp
  next
    case False
    then show ?thesis by simp
  qed
qed

lemma bodyCodeMatch_runs:
  "bodyCodeMatch s =
     (case find (\<lambda>r. 6 \<le> length r) (digitRuns s) of
        None \<Rightarrow> None
      | Some r \<Rightarrow> Some (take 6 r))"
proof (induction s rule: digitRuns.induct)
  case 1
  then show ?case by simp
next
  case (2 c cs)
  show ?case
  proof (cases "isDigit c")
    case False
    then have "\<not> sixDigitsHere (c # cs)"
      by (simp add: sixDigitsHere_iff)
    with False 2 show ?thesis by simp
  next
    case True
    show ?thesis
    proof (cases "6 \<le> length (takeWhile isDigit (c # cs))")
      case long: True
      then have "sixDigitsHere (c # cs)" by (simp add: sixDigitsHere_iff)
      moreover have "take 6 (c # cs) = take 6 (takeWhile isDigit (c # cs))"
        using long by (rule take_takeWhile_long)
      ultimately show ?thesis using True long by simp
    next
      case short: False
      then have "bodyCodeMatch (c # cs) = bodyCodeMatch (dropWhile isDigit (c # cs))"
        by (intro bodyCodeMatch_short_run) simp
      then show ?thesis using True short 2(1) by simp
    qed
  qed
qed

text \<open>
  C5, as the specification states it, fails: the fallback pattern has no boundary on either
  side, so it matches inside a longer run. In the body \<^verbatim>\<open>ref 1234567\<close> the only run of
  digits has seven digits, no standalone run of six digits exists, and the fallback yields
  \<^verbatim>\<open>123456\<close>.
\<close>

theorem fallback_matches_inside_longer_run:
  "extractCode \<lparr>subject = Some (js ''Receipt''), date = Some 0,
                 text_part = Some (js ''ref 1234567''), html = None\<rparr> = Some (js ''123456'')
   \<and> digitRuns (js ''ref 1234567'') = [js ''1234567'']
   \<and> firstStandaloneSix (js ''ref 1234567'') = None"
  by (simp add: eval_defs firstStandaloneSix_def)

text \<open>
  C5, amended: when the subject pattern does not match, the code is the first six digits of
  the first run of at least six digits in the body, where the body is the plain text if it
  is not empty and the HTML otherwise. So a run of fewer than six digits is never matched, a
  run of exactly six digits is returned whole, and a longer run gives its first six digits.
  A body with the run \<^verbatim>\<open>482913\<close> and no earlier run of six digits or more yields
  \<^verbatim>\<open>482913\<close>.
\<close>

theorem fallback_first_six_digits:
  "(codeMatch (subjectOf p) = None \<longrightarrow>
      extractCode p =
        (case find (\<lambda>r. 6 \<le> length r) (digitRuns (bodyText p)) of
           None \<Rightarrow> None
         | Some r \<Rightarrow> Some (take 6 r)))
   \<and> (\<forall>t. text_part p = Some t \<and> t \<noteq> [] \<longrightarrow> bodyText p = t)
   \<and> (\<forall>h. (text_part p = None \<or> text_part p = Some []) \<and> html p = Some h \<longrightarrow> bodyText p = h)
   \<and> extractCode \<lparr>subject = Some (js ''Your sign-in code''), date = d,
                    text_part = Some (js ''Use 482913 to sign in.''), html = None\<rparr>
       = Some (js ''482913'')"
proof (intro conjI impI allI)
  assume "codeMatch (subjectOf p) = None"
  then show "extractCode p =
        (case find (\<lambda>r. 6 \<le> length r) (digitRuns (bodyText p)) of
           None \<Rightarrow> None
         | Some r \<Rightarrow> Some (take 6 r))"
    by (simp add: extractCode_def bodyCodeMatch_runs)
next
  fix t assume "text_part p = Some t \<and> t \<noteq> []"
  then show "bodyText p = t" by (simp add: bodyText_def)
next
  fix h assume "(text_part p = None \<or> text_part p = Some []) \<and> html p = Some h"
  then show "bodyText p = h" by (auto simp: bodyText_def)
next
  show "extractCode \<lparr>subject = Some (js ''Your sign-in code''), date = d,
                    text_part = Some (js ''Use 482913 to sign in.''), html = None\<rparr>
       = Some (js ''482913'')"
    by (simp add: eval_defs)
qed

theorem fallback_first_six_digits_witness:
  "codeMatch (subjectOf \<lparr>subject = None, date = None, text_part = Some [],
                          html = Some (js ''<b>12345</b> id 9876543210'')\<rparr>) = None
   \<and> extractCode \<lparr>subject = None, date = None, text_part = Some [],
                    html = Some (js ''<b>12345</b> id 9876543210'')\<rparr> = Some (js ''987654'')"
  using fallback_first_six_digits [of "\<lparr>subject = None, date = None, text_part = Some [],
                          html = Some (js ''<b>12345</b> id 9876543210'')\<rparr>"]
  by (simp add: eval_defs)

text \<open>
  C6: when the subject pattern matches, the code is the capture of the subject, whatever
  the body holds; the subject \<^verbatim>\<open>Expensify magic code: 147826\<close> yields \<^verbatim>\<open>147826\<close>.
\<close>

theorem subject_takes_precedence:
  "(codeMatch (subjectOf p) = Some c \<longrightarrow> extractCode p = Some c)
   \<and> (subject p = Some (js ''Expensify magic code: 147826'') \<longrightarrow>
        extractCode p = Some (js ''147826''))"
  by (simp add: eval_defs)

theorem subject_takes_precedence_witness:
  "codeMatch (js ''Expensify magic code: 147826'') = Some (js ''147826'')
   \<and> bodyCodeMatch (js ''Your code is 999999'') = Some (js ''999999'')
   \<and> extractCode \<lparr>subject = Some (js ''Expensify magic code: 147826''), date = Some 0,
                    text_part = Some (js ''Your code is 999999''), html = None\<rparr>
       = Some (js ''147826'')"
  using subject_takes_precedence [of "\<lparr>subject = Some (js ''Expensify magic code: 147826''),
       date = Some 0, text_part = Some (js ''Your code is 999999''), html = None\<rparr>" "js ''147826''"]
  by (simp add: eval_defs)

section \<open>\<^verbatim>\<open>enterEmail\<close> when no locator matches\<close>

lemma findEmailInput_iff:
  "findEmailInput p sels \<longleftrightarrow> (\<exists>sel\<in>set sels. waitForSelector p sel = ElementFound)"
  by (induction sels) (auto split: selector_wait.splits)

text \<open>
  C8: when no selector of the list finds an element, \<^verbatim>\<open>enterEmail\<close> returns false and
  does nothing if the URL of the page contains neither \<^verbatim>\<open>/login\<close> nor \<^verbatim>\<open>/signin\<close>,
  and throws the not-found error otherwise.
\<close>

theorem enterEmail_no_locator:
  assumes "\<forall>sel\<in>set emailSelectors. waitForSelector p sel \<noteq> ElementFound"
  shows "enterEmail (Some p) a =
           (if \<not> includes_js (url p) (js ''/login'') \<and> \<not> includes_js (url p) (js ''/signin'')
            then (Inr False, [])
            else (Inl EmailInputNotFound, []))"
proof -
  have "\<not> findEmailInput p emailSelectors"
    using assms by (simp add: findEmailInput_iff)
  then show ?thesis by (simp add: enterEmail_def)
qed

theorem enterEmail_no_locator_witness:
  "enterEmail (Some \<lparr>url = js ''https://new.expensify.com/home'',
          waitForSelector = (\<lambda>s. SelectorTimeout), fillError = (\<lambda>s. None),
          queryClick = (\<lambda>s. NoButton), pressError = (\<lambda>s. None)\<rparr>) (js ''me@x.org'')
       = (Inr False, [])
   \<and> enterEmail (Some \<lparr>url = js ''https://new.expensify.com/signin'',
          waitForSelector = (\<lambda>s. NoElement), fillError = (\<lambda>s. None),
          queryClick = (\<lambda>s. NoButton), pressError = (\<lambda>s. None)\<rparr>) (js ''me@x.org'')
       = (Inl EmailInputNotFound, [])"
proof -
  have h1: "\<forall>sel\<in>set emailSelectors.
       waitForSelector \<lparr>url = js ''https://new.expensify.com/home'',
          waitForSelector = (\<lambda>s. SelectorTimeout), fillError = (\<lambda>s. None),
          queryClick = (\<lambda>s. NoButton), pressError = (\<lambda>s. None)\<rparr> sel \<noteq> ElementFound"
    by simp
  have h2: "\<forall>sel\<in>set emailSelectors.
       waitForSelector \<lparr>url = js ''https://new.expensify.com/signin'',
          waitForSelector = (\<lambda>s. NoElement), fillError = (\<lambda>s. None),
          queryClick = (\<lambda>s. NoButton), pressError = (\<lambda>s. None)\<rparr> sel \<noteq> ElementFound"
    by simp
  from enterEmail_no_locator [OF h1, of "js ''me@x.org''"]
       enterEmail_no_locator [OF h2, of "js ''me@x.org''"]
  show ?thesis by (simp add: js_def startsWith_def)
qed

section \<open>The alias tag\<close>

lemma tagHere_tag:
  "tg \<noteq> [] \<Longrightarrow> atSign \<notin> set tg \<Longrightarrow> tagHere (tg @ atSign # d) = Some d"
proof -
  assume ne: "tg \<noteq> []" and no: "atSign \<notin> set tg"
  have tw: "takeWhile (\<lambda>c. c \<noteq> atSign) (tg @ atSign # d) = tg"
    using no by (induction tg) auto
  have dw: "dropWhile (\<lambda>c. c \<noteq> atSign) (tg @ atSign # d) = atSign # d"
    using no by (induction tg) auto
  show ?thesis using ne by (simp add: tagHere_def tw dw)
qed

lemma stripEmailTag_tag:
  "plusSign \<notin> set u \<Longrightarrow> tg \<noteq> [] \<Longrightarrow> atSign \<notin> set tg \<Longrightarrow>
   stripEmailTag (u @ plusSign # tg @ atSign # d) = u @ atSign # d"
  by (induction u) (simp_all add: tagHere_tag)


section \<open>The calls of \<^verbatim>\<open>login\<close>\<close>

lemma enterEmail_fills_address:
  "enterEmail pg a = (r, acts) \<Longrightarrow> Fill sel txt \<in> set acts \<Longrightarrow> txt = a"
  by (auto simp: enterEmail_def split: option.splits if_splits)

lemma login_first_call:
  "\<exists>rest. calls (login w al) = Connect (user (monitorConfig (emailMonitor al))) # rest"
  by (simp add: login_def Let_def split: option.splits prod.splits sum.splits wait_result.splits)

lemma login_Connect:
  "Connect x \<in> set (calls (login w al)) \<Longrightarrow> x = user (monitorConfig (emailMonitor al))"
  by (auto simp: login_def Let_def split: option.splits prod.splits sum.splits wait_result.splits)

lemma login_EnterEmail:
  "EnterEmail a acts \<in> set (calls (login w al)) \<Longrightarrow>
     a = email (config al) \<and> acts = snd (enterEmail (Some (loginPage w)) a)"
  by (auto simp: login_def Let_def split: option.splits prod.splits sum.splits wait_result.splits)

lemma login_reaches_EnterEmail:
  "fst (connect (mail w) (emailMonitor al)) = None \<Longrightarrow> initError w = None \<Longrightarrow> gotoError w = None \<Longrightarrow>
   EnterEmail (email (config al)) (snd (enterEmail (Some (loginPage w)) (email (config al))))
     \<in> set (calls (login w al))"
  by (auto simp: login_def Let_def split: option.splits prod.splits sum.splits wait_result.splits)

lemma login_WaitForCode:
  "WaitForCode f mw t \<in> set (calls (login w al)) \<Longrightarrow>
     f = fromEmail (config al) \<and> mw = 60000 \<and> t = None"
  by (auto simp: login_def Let_def split: option.splits prod.splits sum.splits wait_result.splits)

section \<open>One cycle of \<^verbatim>\<open>findCode\<close>\<close>

subsection \<open>The latest entry comes first after the sort\<close>

lemma hd_sortByDateDesc:
  assumes "vs \<noteq> []"
  shows "hd (sortByDateDesc vs) \<in> set vs"
    and "\<forall>w\<in>set vs. emailDate w \<le> emailDate (hd (sortByDateDesc vs))"
proof -
  let ?f = "\<lambda>v. - emailDate v"
  let ?ys = "sort_key ?f vs"
  have set_eq: "set ?ys = set vs" by simp
  have "length ?ys = length vs" by simp
  with assms obtain y ys where ys: "?ys = y # ys" by (cases ?ys) auto
  have "sorted (map ?f ?ys)" by (rule sorted_sort_key)
  with ys have "\<forall>z\<in>set ys. ?f y \<le> ?f z" by simp
  then have le: "\<forall>z\<in>set ?ys. emailDate z \<le> emailDate y" using ys by auto
  have hd_y: "hd (sortByDateDesc vs) = y" using ys by (simp add: sortByDateDesc_def)
  have "y \<in> set ?ys" using ys by simp
  then show "hd (sortByDateDesc vs) \<in> set vs" using hd_y set_eq by simp
  show "\<forall>w\<in>set vs. emailDate w \<le> emailDate (hd (sortByDateDesc vs))"
    using le hd_y set_eq by simp
qed

subsection \<open>The handlers in terms of the entries they append\<close>

lemma candidates_Cons:
  "candidates t (m # ms) = candidates t [m] @ candidates t ms"
  by (simp add: candidates_def List.map_filter_simps split: option.splits)

lemma candidates_append:
  "candidates t (xs @ ys) = candidates t xs @ candidates t ys"
  by (simp add: candidates_def List.map_filter_def)

lemma candidates_Nil: "candidates t [] = []"
  by (simp add: candidates_def List.map_filter_simps)

lemma set_candidates:
  "v \<in> set (candidates t msgs) \<longleftrightarrow> (\<exists>msg\<in>set msgs. candidate t msg = Some v)"
  by (induction msgs) (auto simp: candidates_def List.map_filter_simps split: option.splits)

lemma candidate_SomeD:
  assumes "candidate t msg = Some v"
  shows "uid v \<noteq> 0" and "code v \<noteq> []" and "attrs_uid msg = Some (uid v)"
    and "\<exists>p. parsed msg = Parsed p \<and> date p = Some (emailDate v) \<and> extractCode p = Some (code v)"
    and "\<not> beforeSince t (Some (emailDate v))"
  using assms
  by (auto simp: candidate_def split: option.splits parse_result.splits if_splits)

lemma onBody_candidates:
  "onBody t msg s =
     finishIfLast (decrement (s\<lparr>validEmails := validEmails s @ candidates t [msg]\<rparr>))"
  by (auto simp: onBody_def candidate_def candidates_def List.map_filter_simps
      split: option.splits parse_result.splits)

lemma onEvent_resolved:
  assumes "resolved s"
  shows "resolved (onEvent t s ev)" and "settled (onEvent t s ev) = settled s"
    and "addFlags (onEvent t s ev) = addFlags s"
  using assms
  by (cases ev; simp add: onEvent_def onBody_candidates finishIfLast_def decrement_def)+

lemma foldl_resolved:
  "resolved s \<Longrightarrow>
     resolved (foldl (onEvent t) s evs) \<and> settled (foldl (onEvent t) s evs) = settled s
     \<and> addFlags (foldl (onEvent t) s evs) = addFlags s"
  by (induction evs arbitrary: s) (simp_all add: onEvent_resolved)

lemma bodies_pending:
  "\<not> resolved s \<Longrightarrow> int (length msgs) < pendingCount s \<Longrightarrow>
   foldl (onEvent t) s (map Body msgs) =
     s\<lparr>pendingCount := pendingCount s - int (length msgs),
       validEmails := validEmails s @ candidates t msgs\<rparr>"
proof (induction msgs arbitrary: s)
  case Nil
  then show ?case by (simp add: candidates_Nil)
next
  case (Cons m ms)
  let ?s1 = "s\<lparr>pendingCount := pendingCount s - 1,
               validEmails := validEmails s @ candidates t [m]\<rparr>"
  have step: "onEvent t s (Body m) = ?s1"
    using Cons.prems by (simp add: onEvent_def onBody_candidates finishIfLast_def decrement_def)
  have "foldl (onEvent t) ?s1 (map Body ms) =
          ?s1\<lparr>pendingCount := pendingCount ?s1 - int (length ms),
               validEmails := validEmails ?s1 @ candidates t ms\<rparr>"
    using Cons.prems by (intro Cons.IH) simp_all
  then show ?case
    using step by (simp add: candidates_Cons[of t m ms])
qed

lemma last_body:
  assumes "\<not> resolved s" and "pendingCount s = 1"
  shows "resolved (onEvent t s (Body m))"
    and "settled (onEvent t s (Body m)) = Some (fst (selectBest (validEmails s @ candidates t [m])))"
    and "addFlags (onEvent t s (Body m)) = addFlags s @ snd (selectBest (validEmails s @ candidates t [m]))"
  using assms
  by (simp_all add: onEvent_def onBody_candidates finishIfLast_def decrement_def selectBest_def Let_def)

lemma bodies_settle:
  assumes "\<not> resolved s" and "pendingCount s = int (length msgs)" and "msgs \<noteq> []"
  shows "resolved (foldl (onEvent t) s (map Body msgs))"
    and "settled (foldl (onEvent t) s (map Body msgs)) =
           Some (fst (selectBest (validEmails s @ candidates t msgs)))"
    and "addFlags (foldl (onEvent t) s (map Body msgs)) =
           addFlags s @ snd (selectBest (validEmails s @ candidates t msgs))"
proof -
  from assms(3) obtain ms m where msgs: "msgs = ms @ [m]"
    by (cases msgs rule: rev_cases) auto
  let ?s1 = "s\<lparr>pendingCount := pendingCount s - int (length ms),
               validEmails := validEmails s @ candidates t ms\<rparr>"
  have mid: "foldl (onEvent t) s (map Body ms) = ?s1"
    using assms(1,2) msgs by (intro bodies_pending) simp_all
  have nr: "\<not> resolved ?s1" and one: "pendingCount ?s1 = 1"
    using assms(1,2) msgs by simp_all
  have full: "foldl (onEvent t) s (map Body msgs) = onEvent t ?s1 (Body m)"
    using mid msgs by simp
  show "resolved (foldl (onEvent t) s (map Body msgs))"
    unfolding full using last_body(1)[OF nr one] .
  show "settled (foldl (onEvent t) s (map Body msgs)) =
           Some (fst (selectBest (validEmails s @ candidates t msgs)))"
    unfolding full using last_body(2)[OF nr one, of t m] msgs
    by (simp add: candidates_append)
  show "addFlags (foldl (onEvent t) s (map Body msgs)) =
           addFlags s @ snd (selectBest (validEmails s @ candidates t msgs))"
    unfolding full using last_body(3)[OF nr one, of t m] msgs
    by (simp add: candidates_append)
qed

subsection \<open>Every event sequence has one of three shapes\<close>

lemma events_shape:
  "(\<exists>msgs rest. evs = map Body msgs @ rest \<and> length msgs = n)
   \<or> (\<exists>msgs e rest. evs = map Body msgs @ FetchError e # rest \<and> length msgs < n)
   \<or> (\<exists>msgs. evs = map Body msgs \<and> length msgs < n)"
proof (induction evs arbitrary: n)
  case Nil
  show ?case
  proof (cases n)
    case 0
    have "[] = map Body [] @ [] \<and> length ([] :: message list) = n" using 0 by simp
    then have "\<exists>msgs rest. [] = map Body msgs @ rest \<and> length msgs = n" by (intro exI)
    then show ?thesis by (rule disjI1)
  next
    case (Suc n')
    have "[] = map Body [] \<and> length ([] :: message list) < n" using Suc by simp
    then have "\<exists>msgs. [] = map Body msgs \<and> length msgs < n" by (intro exI)
    then show ?thesis by (intro disjI2)
  qed
next
  case (Cons ev evs)
  show ?case
  proof (cases n)
    case 0
    have "ev # evs = map Body [] @ (ev # evs) \<and> length ([] :: message list) = n"
      using 0 by simp
    then have "\<exists>msgs rest. ev # evs = map Body msgs @ rest \<and> length msgs = n" by (intro exI)
    then show ?thesis by (rule disjI1)
  next
    case (Suc n')
    show ?thesis
    proof (cases ev)
      case (FetchError e)
      have "ev # evs = map Body [] @ FetchError e # evs \<and> length ([] :: message list) < n"
        using FetchError Suc by simp
      then have "\<exists>msgs e rest. ev # evs = map Body msgs @ FetchError e # rest \<and> length msgs < n"
        by (intro exI)
      then show ?thesis by (intro disjI2 disjI1)
    next
      case (Body m)
      from Cons.IH[of n'] show ?thesis
      proof (elim disjE exE conjE)
        fix msgs rest assume "evs = map Body msgs @ rest" "length msgs = n'"
        then have "ev # evs = map Body (m # msgs) @ rest \<and> length (m # msgs) = n"
          using Body Suc by simp
        then have "\<exists>msgs rest. ev # evs = map Body msgs @ rest \<and> length msgs = n" by (intro exI)
        then show ?thesis by (rule disjI1)
      next
        fix msgs e rest assume "evs = map Body msgs @ FetchError e # rest" "length msgs < n'"
        then have "ev # evs = map Body (m # msgs) @ FetchError e # rest \<and> length (m # msgs) < n"
          using Body Suc by simp
        then have "\<exists>msgs e rest. ev # evs = map Body msgs @ FetchError e # rest \<and> length msgs < n"
          by (intro exI)
        then show ?thesis by (intro disjI2 disjI1)
      next
        fix msgs assume "evs = map Body msgs" "length msgs < n'"
        then have "ev # evs = map Body (m # msgs) \<and> length (m # msgs) < n"
          using Body Suc by simp
        then have "\<exists>msgs. ev # evs = map Body msgs \<and> length msgs < n" by (intro exI)
        then show ?thesis by (intro disjI2)
      qed
    qed
  qed
qed

subsection \<open>The outcome of a cycle for each shape\<close>

lemma findCode_bodies:
  assumes "search srv sender = SearchResults rs" and "rs \<noteq> []"
    and "fetch srv rs = map Body msgs @ rest" and "length msgs = length rs"
  shows "findCode srv sender t =
           (Some (fst (selectBest (candidates t msgs))), snd (selectBest (candidates t msgs)))"
proof -
  let ?s0 = "\<lparr>pendingCount = int (length rs), validEmails = [], resolved = False,
              settled = None, addFlags = []\<rparr>"
  let ?s1 = "foldl (onEvent t) ?s0 (map Body msgs)"
  have ne: "msgs \<noteq> []" using assms(2,4) by auto
  have nr: "\<not> resolved ?s0" and pc: "pendingCount ?s0 = int (length msgs)"
    using assms(4) by simp_all
  note st = bodies_settle[OF nr pc ne, of t]
  have "foldl (onEvent t) ?s0 (fetch srv rs) = foldl (onEvent t) ?s1 rest"
    using assms(3) by simp
  moreover note foldl_resolved[OF st(1), of t rest]
  ultimately have "settled (foldl (onEvent t) ?s0 (fetch srv rs)) = settled ?s1"
    and "addFlags (foldl (onEvent t) ?s0 (fetch srv rs)) = addFlags ?s1"
    by simp_all
  then show ?thesis
    using assms(1,2) st(2,3) by (simp add: findCode_def Let_def)
qed

lemma findCode_fetch_error:
  assumes "search srv sender = SearchResults rs"
    and "fetch srv rs = map Body msgs @ FetchError e # rest" and "length msgs < length rs"
  shows "findCode srv sender t = (Some (Rejected e), [])"
proof -
  let ?s0 = "\<lparr>pendingCount = int (length rs), validEmails = [], resolved = False,
              settled = None, addFlags = []\<rparr>"
  let ?s1 = "?s0\<lparr>pendingCount := pendingCount ?s0 - int (length msgs),
               validEmails := validEmails ?s0 @ candidates t msgs\<rparr>"
  let ?s2 = "onEvent t ?s1 (FetchError e)"
  have ne: "rs \<noteq> []" using assms(3) by auto
  have mid: "foldl (onEvent t) ?s0 (map Body msgs) = ?s1"
    using assms(3) by (intro bodies_pending) simp_all
  have s2: "resolved ?s2" "settled ?s2 = Some (Rejected e)" "addFlags ?s2 = []"
    by (simp_all add: onEvent_def)
  have "foldl (onEvent t) ?s0 (fetch srv rs) = foldl (onEvent t) ?s2 rest"
    using assms(2) mid by simp
  moreover note foldl_resolved[OF s2(1), of t rest]
  ultimately have "settled (foldl (onEvent t) ?s0 (fetch srv rs)) = Some (Rejected e)"
    and "addFlags (foldl (onEvent t) ?s0 (fetch srv rs)) = []"
    using s2(2,3) by simp_all
  then show ?thesis
    using assms(1) ne by (simp add: findCode_def Let_def)
qed

lemma findCode_pending:
  assumes "search srv sender = SearchResults rs"
    and "fetch srv rs = map Body msgs" and "length msgs < length rs"
  shows "findCode srv sender t = (None, [])"
proof -
  let ?s0 = "\<lparr>pendingCount = int (length rs), validEmails = [], resolved = False,
              settled = None, addFlags = []\<rparr>"
  have ne: "rs \<noteq> []" using assms(3) by auto
  have "foldl (onEvent t) ?s0 (map Body msgs) =
          ?s0\<lparr>pendingCount := pendingCount ?s0 - int (length msgs),
               validEmails := validEmails ?s0 @ candidates t msgs\<rparr>"
    using assms(3) by (intro bodies_pending) simp_all
  then show ?thesis
    using assms(1,2) ne by (simp add: findCode_def Let_def)
qed

lemma selectBest_cases:
  "(vs = [] \<and> selectBest vs = (Resolved None, []))
   \<or> (\<exists>v\<in>set vs. (\<forall>w\<in>set vs. emailDate w \<le> emailDate v)
         \<and> selectBest vs = (Resolved (Some (code v)), if uid v \<noteq> 0 then [uid v] else []))"
proof (cases "vs = []")
  case True
  then show ?thesis by (simp add: selectBest_def)
next
  case False
  from hd_sortByDateDesc[OF False] False show ?thesis
    by (auto simp: selectBest_def Let_def)
qed

lemma findCode_shape:
  assumes "findCode srv sender t = (out, fl)"
  shows "(fl = [] \<and> (\<forall>c. out \<noteq> Some (Resolved (Some c))))
   \<or> (\<exists>rs msgs rest v. search srv sender = SearchResults rs \<and> rs \<noteq> []
         \<and> fetch srv rs = map Body msgs @ rest \<and> length msgs = length rs
         \<and> v \<in> set (candidates t msgs)
         \<and> (\<forall>w\<in>set (candidates t msgs). emailDate w \<le> emailDate v)
         \<and> out = Some (Resolved (Some (code v))) \<and> fl = [uid v])"
proof (cases "search srv sender")
  case (SearchError e)
  then show ?thesis using assms by (auto simp: findCode_def)
next
  case (SearchResults rs)
  show ?thesis
  proof (cases "rs = []")
    case True
    then show ?thesis using assms SearchResults by (auto simp: findCode_def)
  next
    case False
    from events_shape[of "fetch srv rs" "length rs"] consider
        (full) msgs rest where "fetch srv rs = map Body msgs @ rest" "length msgs = length rs"
      | (err) msgs e rest where "fetch srv rs = map Body msgs @ FetchError e # rest"
          "length msgs < length rs"
      | (short) msgs where "fetch srv rs = map Body msgs" "length msgs < length rs"
      by blast
    then show ?thesis
    proof cases
      case full
      note fc = findCode_bodies[OF SearchResults False full, of t]
      from selectBest_cases[of "candidates t msgs"] show ?thesis
      proof
        assume "candidates t msgs = [] \<and> selectBest (candidates t msgs) = (Resolved None, [])"
        then show ?thesis using fc assms by auto
      next
        assume "\<exists>v\<in>set (candidates t msgs). (\<forall>w\<in>set (candidates t msgs). emailDate w \<le> emailDate v)
           \<and> selectBest (candidates t msgs) = (Resolved (Some (code v)), if uid v \<noteq> 0 then [uid v] else [])"
        then obtain v where v: "v \<in> set (candidates t msgs)"
          "\<forall>w\<in>set (candidates t msgs). emailDate w \<le> emailDate v"
          "selectBest (candidates t msgs) = (Resolved (Some (code v)), if uid v \<noteq> 0 then [uid v] else [])"
          by blast
        from v(1) have "uid v \<noteq> 0"
          by (auto simp: set_candidates dest: candidate_SomeD(1))
        with v(3) fc assms have "out = Some (Resolved (Some (code v)))" "fl = [uid v]"
          by simp_all
        with v(1,2) SearchResults False full
        have "search srv sender = SearchResults rs \<and> rs \<noteq> []
         \<and> fetch srv rs = map Body msgs @ rest \<and> length msgs = length rs
         \<and> v \<in> set (candidates t msgs)
         \<and> (\<forall>w\<in>set (candidates t msgs). emailDate w \<le> emailDate v)
         \<and> out = Some (Resolved (Some (code v))) \<and> fl = [uid v]" by simp
        then have "\<exists>rs msgs rest v. search srv sender = SearchResults rs \<and> rs \<noteq> []
         \<and> fetch srv rs = map Body msgs @ rest \<and> length msgs = length rs
         \<and> v \<in> set (candidates t msgs)
         \<and> (\<forall>w\<in>set (candidates t msgs). emailDate w \<le> emailDate v)
         \<and> out = Some (Resolved (Some (code v))) \<and> fl = [uid v]" by (intro exI)
        then show ?thesis by (rule disjI2)
      qed
    next
      case err
      from findCode_fetch_error[OF SearchResults err, of t] assms show ?thesis by auto
    next
      case short
      from findCode_pending[OF SearchResults short, of t] assms show ?thesis by auto
    qed
  qed
qed

section \<open>The polling loop\<close>

declare checkEmail.simps [simp del]

lemma checkEmail_timeout:
  "mw < now - start \<Longrightarrow>
   checkEmail ps sender mw t start k now flags =
     \<lparr>result = Failed TimeoutWaitingForEmail, endTime = now, flagged = flags\<rparr>"
  by (subst checkEmail.simps) simp

lemma checkEmail_openInbox_error:
  "\<not> mw < now - start \<Longrightarrow> openInbox (imap (ps k)) = Some e \<Longrightarrow>
   checkEmail ps sender mw t start k now flags =
     \<lparr>result = Failed e, endTime = now + int (duration (ps k)), flagged = flags\<rparr>"
  by (subst checkEmail.simps) simp

lemma checkEmail_round:
  "\<not> mw < now - start \<Longrightarrow> openInbox (imap (ps k)) = None \<Longrightarrow>
   findCode (imap (ps k)) sender t = (out, fl) \<Longrightarrow>
   checkEmail ps sender mw t start k now flags =
     (case out of
        None \<Rightarrow> \<lparr>result = Pending, endTime = now + int (duration (ps k)), flagged = flags @ fl\<rparr>
      | Some (Rejected e) \<Rightarrow>
          \<lparr>result = Failed e, endTime = now + int (duration (ps k)), flagged = flags @ fl\<rparr>
      | Some (Resolved None) \<Rightarrow>
          checkEmail ps sender mw t start (Suc k) (now + int (duration (ps k)) + 2000) (flags @ fl)
      | Some (Resolved (Some c)) \<Rightarrow>
          if c \<noteq> []
          then \<lparr>result = Code c, endTime = now + int (duration (ps k)), flagged = flags @ fl\<rparr>
          else checkEmail ps sender mw t start (Suc k) (now + int (duration (ps k)) + 2000)
                 (flags @ fl))"
  by (subst checkEmail.simps) (simp split: option.splits find_outcome.splits)

lemma checkEmail_Code:
  "result (checkEmail ps sender mw t start k now flags) = Code c \<Longrightarrow>
   \<exists>j rs msgs rest v. search (imap (ps j)) sender = SearchResults rs \<and> rs \<noteq> []
      \<and> fetch (imap (ps j)) rs = map Body msgs @ rest \<and> length msgs = length rs
      \<and> v \<in> set (candidates t msgs)
      \<and> (\<forall>w\<in>set (candidates t msgs). emailDate w \<le> emailDate v)
      \<and> c = code v \<and> flagged (checkEmail ps sender mw t start k now flags) = flags @ [uid v]"
proof (induction ps sender mw t start k now flags rule: checkEmail.induct)
  case (1 ps sender mw t start k now flags)
  show ?case
  proof (cases "mw < now - start")
    case True
    then show ?thesis using "1.prems" by (simp add: checkEmail_timeout)
  next
    case running: False
    show ?thesis
    proof (cases "openInbox (imap (ps k))")
      case (Some e)
      then show ?thesis using "1.prems" running by (simp add: checkEmail_openInbox_error)
    next
      case None
      obtain out fl where fc: "findCode (imap (ps k)) sender t = (out, fl)"
        by (cases "findCode (imap (ps k)) sender t") auto
      note round = checkEmail_round[where ps=ps and k=k and flags=flags, OF running None fc]
      from findCode_shape[OF fc] show ?thesis
      proof (elim disjE exE conjE)
        assume fl: "fl = []" and noc: "\<forall>c. out \<noteq> Some (Resolved (Some c))"
        show ?thesis
        proof (cases "out = Some (Resolved None)")
          case again: True
          have eq: "checkEmail ps sender mw t start k now flags =
                checkEmail ps sender mw t start (Suc k) (now + int (duration (ps k)) + 2000) (flags @ fl)"
            using round again by simp
          have "\<exists>j rs msgs rest v. search (imap (ps j)) sender = SearchResults rs \<and> rs \<noteq> []
              \<and> fetch (imap (ps j)) rs = map Body msgs @ rest \<and> length msgs = length rs
              \<and> v \<in> set (candidates t msgs)
              \<and> (\<forall>w\<in>set (candidates t msgs). emailDate w \<le> emailDate v)
              \<and> c = code v
              \<and> flagged (checkEmail ps sender mw t start (Suc k) (now + int (duration (ps k)) + 2000) (flags @ fl))
                  = (flags @ fl) @ [uid v]"
            using "1.prems" eq again running None fc
            by (intro "1.IH"(1)) simp_all
          then show ?thesis using eq fl by simp
        next
          case other: False
          with noc round "1.prems" show ?thesis
            by (auto split: option.splits find_outcome.splits)
        qed
      next
        fix rs msgs rest v
        assume h: "search (imap (ps k)) sender = SearchResults rs" "rs \<noteq> []"
          "fetch (imap (ps k)) rs = map Body msgs @ rest" "length msgs = length rs"
          "v \<in> set (candidates t msgs)"
          "\<forall>w\<in>set (candidates t msgs). emailDate w \<le> emailDate v"
          "out = Some (Resolved (Some (code v)))" "fl = [uid v]"
        from h(5) have "code v \<noteq> []"
          by (auto simp: set_candidates dest: candidate_SomeD(2))
        with round h(7,8) have res: "result (checkEmail ps sender mw t start k now flags) = Code (code v)"
          and fl: "flagged (checkEmail ps sender mw t start k now flags) = flags @ [uid v]"
          by simp_all
        with "1.prems" have "c = code v" by simp
        with h fl have "search (imap (ps k)) sender = SearchResults rs \<and> rs \<noteq> []
            \<and> fetch (imap (ps k)) rs = map Body msgs @ rest \<and> length msgs = length rs
            \<and> v \<in> set (candidates t msgs)
            \<and> (\<forall>w\<in>set (candidates t msgs). emailDate w \<le> emailDate v)
            \<and> c = code v \<and> flagged (checkEmail ps sender mw t start k now flags) = flags @ [uid v]"
          by simp
        then show ?thesis by (intro exI)
      qed
    qed
  qed
qed

lemma checkEmail_no_Code:
  "\<forall>c. result (checkEmail ps sender mw t start k now flags) \<noteq> Code c \<Longrightarrow>
   flagged (checkEmail ps sender mw t start k now flags) = flags"
proof (induction ps sender mw t start k now flags rule: checkEmail.induct)
  case (1 ps sender mw t start k now flags)
  show ?case
  proof (cases "mw < now - start")
    case True
    then show ?thesis by (simp add: checkEmail_timeout)
  next
    case running: False
    show ?thesis
    proof (cases "openInbox (imap (ps k))")
      case (Some e)
      then show ?thesis using running by (simp add: checkEmail_openInbox_error)
    next
      case None
      obtain out fl where fc: "findCode (imap (ps k)) sender t = (out, fl)"
        by (cases "findCode (imap (ps k)) sender t") auto
      note round = checkEmail_round[where ps=ps and k=k and flags=flags, OF running None fc]
      from findCode_shape[OF fc] show ?thesis
      proof (elim disjE exE conjE)
        assume fl: "fl = []" and noc: "\<forall>c. out \<noteq> Some (Resolved (Some c))"
        show ?thesis
        proof (cases "out = Some (Resolved None)")
          case again: True
          have eq: "checkEmail ps sender mw t start k now flags =
                checkEmail ps sender mw t start (Suc k) (now + int (duration (ps k)) + 2000) (flags @ fl)"
            using round again by simp
          have "flagged (checkEmail ps sender mw t start (Suc k) (now + int (duration (ps k)) + 2000) (flags @ fl))
                  = flags @ fl"
            using "1.prems" eq again running None fc
            by (intro "1.IH"(1)) simp_all
          then show ?thesis using eq fl by simp
        next
          case other: False
          with noc round fl show ?thesis
            by (auto split: option.splits find_outcome.splits)
        qed
      next
        fix rs msgs rest v
        assume h: "v \<in> set (candidates t msgs)"
          "out = Some (Resolved (Some (code v)))" "fl = [uid v]"
        from h(1) have "code v \<noteq> []"
          by (auto simp: set_candidates dest: candidate_SomeD(2))
        with round h(2,3) have "result (checkEmail ps sender mw t start k now flags) = Code (code v)"
          by simp
        with "1.prems" show ?thesis by simp
      qed
    qed
  qed
qed



subsection \<open>Quiet rounds, and the round that resolves\<close>

lemma findCode_null_no_flags:
  assumes "fst (findCode srv sender t) = Some (Resolved None)"
  shows "snd (findCode srv sender t) = []"
proof -
  obtain out fl where fc: "findCode srv sender t = (out, fl)"
    by (cases "findCode srv sender t") auto
  with assms have out: "out = Some (Resolved None)" by simp
  from findCode_shape[OF fc] out have "fl = []" by auto
  with fc show ?thesis by simp
qed

lemma checkEmail_skip:
  assumes "\<forall>i<n. openInbox (imap (ps (k + i))) = None
                 \<and> fst (findCode (imap (ps (k + i))) sender t) = Some (Resolved None)"
    and "now + (\<Sum>i<n. int (duration (ps (k + i))) + 2000) - start \<le> mw"
  shows "checkEmail ps sender mw t start k now flags =
         checkEmail ps sender mw t start (k + n)
           (now + (\<Sum>i<n. int (duration (ps (k + i))) + 2000)) flags"
  using assms
proof (induction n)
  case 0
  then show ?case by simp
next
  case (Suc n)
  let ?now = "now + (\<Sum>i<n. int (duration (ps (k + i))) + 2000)"
  have nonneg: "0 \<le> int (duration (ps (k + n))) + 2000" by simp
  have time: "?now - start \<le> mw" using Suc.prems(2) nonneg by simp
  have ih: "checkEmail ps sender mw t start k now flags =
            checkEmail ps sender mw t start (k + n) ?now flags"
    using Suc.prems(1) time by (intro Suc.IH) simp_all
  have run: "\<not> mw < ?now - start" using time by simp
  have ob: "openInbox (imap (ps (k + n))) = None" using Suc.prems(1) by simp
  have out: "fst (findCode (imap (ps (k + n))) sender t) = Some (Resolved None)"
    using Suc.prems(1) by simp
  have fc: "findCode (imap (ps (k + n))) sender t = (Some (Resolved None), [])"
    using out findCode_null_no_flags[OF out] by (simp add: prod_eq_iff)
  have "checkEmail ps sender mw t start (k + n) ?now flags =
        checkEmail ps sender mw t start (Suc (k + n)) (?now + int (duration (ps (k + n))) + 2000) flags"
    using checkEmail_round[where ps=ps and k="k + n" and flags=flags, OF run ob fc] by simp
  with ih show ?case by (simp add: add.assoc)
qed

lemma checkEmail_Code_round:
  "result (checkEmail ps sender mw t start k now flags) = Code c \<Longrightarrow>
   \<exists>j rs msgs rest v. k \<le> j
      \<and> (\<forall>i. k \<le> i \<and> i < j \<longrightarrow> openInbox (imap (ps i)) = None
             \<and> fst (findCode (imap (ps i)) sender t) = Some (Resolved None))
      \<and> openInbox (imap (ps j)) = None
      \<and> search (imap (ps j)) sender = SearchResults rs \<and> rs \<noteq> []
      \<and> fetch (imap (ps j)) rs = map Body msgs @ rest \<and> length msgs = length rs
      \<and> v \<in> set (candidates t msgs)
      \<and> (\<forall>w\<in>set (candidates t msgs). emailDate w \<le> emailDate v)
      \<and> findCode (imap (ps j)) sender t = (Some (Resolved (Some c)), [uid v])
      \<and> c = code v"
proof (induction ps sender mw t start k now flags rule: checkEmail.induct)
  case (1 ps sender mw t start k now flags)
  show ?case
  proof (cases "mw < now - start")
    case True
    then show ?thesis using "1.prems" by (simp add: checkEmail_timeout)
  next
    case running: False
    show ?thesis
    proof (cases "openInbox (imap (ps k))")
      case (Some e)
      then show ?thesis using "1.prems" running by (simp add: checkEmail_openInbox_error)
    next
      case None
      obtain out fl where fc: "findCode (imap (ps k)) sender t = (out, fl)"
        by (cases "findCode (imap (ps k)) sender t") auto
      note round = checkEmail_round[where ps=ps and k=k and flags=flags, OF running None fc]
      from findCode_shape[OF fc] show ?thesis
      proof (elim disjE exE conjE)
        assume fl: "fl = []" and noc: "\<forall>c. out \<noteq> Some (Resolved (Some c))"
        show ?thesis
        proof (cases "out = Some (Resolved None)")
          case again: True
          have eq: "checkEmail ps sender mw t start k now flags =
                checkEmail ps sender mw t start (Suc k) (now + int (duration (ps k)) + 2000) (flags @ fl)"
            using round again by simp
          have "\<exists>j rs msgs rest v. Suc k \<le> j
              \<and> (\<forall>i. Suc k \<le> i \<and> i < j \<longrightarrow> openInbox (imap (ps i)) = None
                     \<and> fst (findCode (imap (ps i)) sender t) = Some (Resolved None))
              \<and> openInbox (imap (ps j)) = None
              \<and> search (imap (ps j)) sender = SearchResults rs \<and> rs \<noteq> []
              \<and> fetch (imap (ps j)) rs = map Body msgs @ rest \<and> length msgs = length rs
              \<and> v \<in> set (candidates t msgs)
              \<and> (\<forall>w\<in>set (candidates t msgs). emailDate w \<le> emailDate v)
              \<and> findCode (imap (ps j)) sender t = (Some (Resolved (Some c)), [uid v])
              \<and> c = code v"
            using "1.prems" eq again running None fc
            by (intro "1.IH"(1)) simp_all
          then obtain j rs msgs rest v where j: "Suc k \<le> j"
              "\<forall>i. Suc k \<le> i \<and> i < j \<longrightarrow> openInbox (imap (ps i)) = None
                     \<and> fst (findCode (imap (ps i)) sender t) = Some (Resolved None)"
              "openInbox (imap (ps j)) = None
              \<and> search (imap (ps j)) sender = SearchResults rs \<and> rs \<noteq> []
              \<and> fetch (imap (ps j)) rs = map Body msgs @ rest \<and> length msgs = length rs
              \<and> v \<in> set (candidates t msgs)
              \<and> (\<forall>w\<in>set (candidates t msgs). emailDate w \<le> emailDate v)
              \<and> findCode (imap (ps j)) sender t = (Some (Resolved (Some c)), [uid v])
              \<and> c = code v"
            by blast
          have quiet_k: "openInbox (imap (ps k)) = None
                     \<and> fst (findCode (imap (ps k)) sender t) = Some (Resolved None)"
            using None fc again by simp
          have "\<forall>i. k \<le> i \<and> i < j \<longrightarrow> openInbox (imap (ps i)) = None
                     \<and> fst (findCode (imap (ps i)) sender t) = Some (Resolved None)"
          proof (intro allI impI)
            fix i assume i: "k \<le> i \<and> i < j"
            show "openInbox (imap (ps i)) = None
                     \<and> fst (findCode (imap (ps i)) sender t) = Some (Resolved None)"
            proof (cases "i = k")
              case True
              then show ?thesis using quiet_k by simp
            next
              case False
              then have "Suc k \<le> i \<and> i < j" using i by simp
              then show ?thesis using j(2) by blast
            qed
          qed
          moreover have "k \<le> j" using j(1) by simp
          ultimately have "k \<le> j
              \<and> (\<forall>i. k \<le> i \<and> i < j \<longrightarrow> openInbox (imap (ps i)) = None
                     \<and> fst (findCode (imap (ps i)) sender t) = Some (Resolved None))
              \<and> openInbox (imap (ps j)) = None
              \<and> search (imap (ps j)) sender = SearchResults rs \<and> rs \<noteq> []
              \<and> fetch (imap (ps j)) rs = map Body msgs @ rest \<and> length msgs = length rs
              \<and> v \<in> set (candidates t msgs)
              \<and> (\<forall>w\<in>set (candidates t msgs). emailDate w \<le> emailDate v)
              \<and> findCode (imap (ps j)) sender t = (Some (Resolved (Some c)), [uid v])
              \<and> c = code v"
            using j(3) by simp
          then show ?thesis by (intro exI)
        next
          case other: False
          with noc round "1.prems" show ?thesis
            by (auto split: option.splits find_outcome.splits)
        qed
      next
        fix rs msgs rest v
        assume h: "search (imap (ps k)) sender = SearchResults rs" "rs \<noteq> []"
          "fetch (imap (ps k)) rs = map Body msgs @ rest" "length msgs = length rs"
          "v \<in> set (candidates t msgs)"
          "\<forall>w\<in>set (candidates t msgs). emailDate w \<le> emailDate v"
          "out = Some (Resolved (Some (code v)))" "fl = [uid v]"
        from h(5) have "code v \<noteq> []"
          by (auto simp: set_candidates dest: candidate_SomeD(2))
        with round h(7,8) have res: "result (checkEmail ps sender mw t start k now flags) = Code (code v)"
          by simp
        with "1.prems" have c: "c = code v" by simp
        have vac: "\<forall>i. k \<le> i \<and> i < k \<longrightarrow> openInbox (imap (ps i)) = None
                     \<and> fst (findCode (imap (ps i)) sender t) = Some (Resolved None)"
          by auto
        from c h fc None vac have "k \<le> k
            \<and> (\<forall>i. k \<le> i \<and> i < k \<longrightarrow> openInbox (imap (ps i)) = None
                     \<and> fst (findCode (imap (ps i)) sender t) = Some (Resolved None))
            \<and> openInbox (imap (ps k)) = None
            \<and> search (imap (ps k)) sender = SearchResults rs \<and> rs \<noteq> []
            \<and> fetch (imap (ps k)) rs = map Body msgs @ rest \<and> length msgs = length rs
            \<and> v \<in> set (candidates t msgs)
            \<and> (\<forall>w\<in>set (candidates t msgs). emailDate w \<le> emailDate v)
            \<and> findCode (imap (ps k)) sender t = (Some (Resolved (Some c)), [uid v])
            \<and> c = code v"
          by (intro conjI) simp_all
        then show ?thesis by (intro exI)
      qed
    qed
  qed
qed

section \<open>The claims about the poller\<close>

text \<open>
  C1: in a cycle in which every search result delivers its body and some message yields a
  valid entry, \<^verbatim>\<open>findCode\<close> resolves with the code of an entry whose date is the maximum
  of the dates of the entries. When the connection stands, the rounds before round \<open>j\<close>
  find nothing, the bound has not passed when round \<open>j\<close> starts and round \<open>j\<close> is such a
  cycle, \<^verbatim>\<open>waitForCode\<close> returns the code of a latest entry of round \<open>j\<close>. And whenever
  \<^verbatim>\<open>waitForCode\<close> returns a code, the rounds before some round found nothing, and that
  round, the cycle that resolved, has the returned code as the code of a latest entry.
\<close>

theorem latest_candidate_wins:
  "(search srv sender = SearchResults rs0 \<and> rs0 \<noteq> [] \<and> fetch srv rs0 = map Body msgs0 @ rest0
      \<and> length msgs0 = length rs0 \<and> candidates t msgs0 \<noteq> [] \<longrightarrow>
      (\<exists>v\<in>set (candidates t msgs0).
          (\<forall>w\<in>set (candidates t msgs0). emailDate w \<le> emailDate v)
          \<and> findCode srv sender t = (Some (Resolved (Some (code v))), [uid v])))
   \<and> (fst (connect env m) = None
      \<and> (\<forall>i<j. openInbox (imap (polls env i)) = None
                 \<and> fst (findCode (imap (polls env i)) sender t) = Some (Resolved None))
      \<and> (\<Sum>i<j. int (duration (polls env i)) + 2000) \<le> mw
      \<and> openInbox (imap (polls env j)) = None
      \<and> search (imap (polls env j)) sender = SearchResults rs \<and> rs \<noteq> []
      \<and> fetch (imap (polls env j)) rs = map Body msgs @ rest \<and> length msgs = length rs
      \<and> candidates t msgs \<noteq> [] \<longrightarrow>
      (\<exists>v\<in>set (candidates t msgs).
          (\<forall>w\<in>set (candidates t msgs). emailDate w \<le> emailDate v)
          \<and> findCode (imap (polls env j)) sender t = (Some (Resolved (Some (code v))), [uid v])
          \<and> result (waitForCode env m sender mw t) = Code (code v)))
   \<and> (result (waitForCode env m sender mw t) = Code c \<longrightarrow>
      (\<exists>j' rs' msgs' rest' v.
          (\<forall>i<j'. openInbox (imap (polls env i)) = None
                 \<and> fst (findCode (imap (polls env i)) sender t) = Some (Resolved None))
          \<and> openInbox (imap (polls env j')) = None
          \<and> search (imap (polls env j')) sender = SearchResults rs' \<and> rs' \<noteq> []
          \<and> fetch (imap (polls env j')) rs' = map Body msgs' @ rest' \<and> length msgs' = length rs'
          \<and> v \<in> set (candidates t msgs')
          \<and> (\<forall>w\<in>set (candidates t msgs'). emailDate w \<le> emailDate v)
          \<and> findCode (imap (polls env j')) sender t = (Some (Resolved (Some c)), [uid v])
          \<and> c = code v))"
proof (intro conjI impI)
  assume h: "search srv sender = SearchResults rs0 \<and> rs0 \<noteq> [] \<and> fetch srv rs0 = map Body msgs0 @ rest0
      \<and> length msgs0 = length rs0 \<and> candidates t msgs0 \<noteq> []"
  then have fc: "findCode srv sender t =
      (Some (fst (selectBest (candidates t msgs0))), snd (selectBest (candidates t msgs0)))"
    by (intro findCode_bodies) simp_all
  from selectBest_cases[of "candidates t msgs0"] h
  obtain v where v: "v \<in> set (candidates t msgs0)"
      "\<forall>w\<in>set (candidates t msgs0). emailDate w \<le> emailDate v"
      "selectBest (candidates t msgs0) = (Resolved (Some (code v)), if uid v \<noteq> 0 then [uid v] else [])"
    by blast
  from v(1) have "uid v \<noteq> 0"
    by (auto simp: set_candidates dest: candidate_SomeD(1))
  with fc v(3) have "findCode srv sender t = (Some (Resolved (Some (code v))), [uid v])"
    by simp
  with v(1,2) show "\<exists>v\<in>set (candidates t msgs0).
          (\<forall>w\<in>set (candidates t msgs0). emailDate w \<le> emailDate v)
          \<and> findCode srv sender t = (Some (Resolved (Some (code v))), [uid v])"
    by blast
next
  assume h: "fst (connect env m) = None
      \<and> (\<forall>i<j. openInbox (imap (polls env i)) = None
                 \<and> fst (findCode (imap (polls env i)) sender t) = Some (Resolved None))
      \<and> (\<Sum>i<j. int (duration (polls env i)) + 2000) \<le> mw
      \<and> openInbox (imap (polls env j)) = None
      \<and> search (imap (polls env j)) sender = SearchResults rs \<and> rs \<noteq> []
      \<and> fetch (imap (polls env j)) rs = map Body msgs @ rest \<and> length msgs = length rs
      \<and> candidates t msgs \<noteq> []"
  let ?srv = "imap (polls env j)"
  let ?now = "startTime env + (\<Sum>i<j. int (duration (polls env i)) + 2000)"
  have eq: "waitForCode env m sender mw t =
      checkEmail (polls env) sender mw t (startTime env) 0 (startTime env) []"
    using h by (auto simp: waitForCode_def split: prod.splits option.splits)
  have skip: "checkEmail (polls env) sender mw t (startTime env) 0 (startTime env) [] =
      checkEmail (polls env) sender mw t (startTime env) j ?now []"
    using checkEmail_skip[where ps = "polls env" and k = 0 and n = j and now = "startTime env"
        and start = "startTime env" and mw = mw and sender = sender and t = t and flags = "[]"] h
    by simp
  have fc: "findCode ?srv sender t =
      (Some (fst (selectBest (candidates t msgs))), snd (selectBest (candidates t msgs)))"
    using h by (intro findCode_bodies) simp_all
  from selectBest_cases[of "candidates t msgs"] h
  obtain v where v: "v \<in> set (candidates t msgs)"
      "\<forall>w\<in>set (candidates t msgs). emailDate w \<le> emailDate v"
      "selectBest (candidates t msgs) = (Resolved (Some (code v)), if uid v \<noteq> 0 then [uid v] else [])"
    by blast
  from v(1) have nz: "uid v \<noteq> 0" and ne: "code v \<noteq> []"
    by (auto simp: set_candidates dest: candidate_SomeD(1,2))
  from fc v(3) nz have fc': "findCode ?srv sender t = (Some (Resolved (Some (code v))), [uid v])"
    by simp
  have run: "\<not> mw < ?now - startTime env" using h by simp
  have ob: "openInbox ?srv = None" using h by simp
  have "result (checkEmail (polls env) sender mw t (startTime env) j ?now []) = Code (code v)"
    using checkEmail_round[where ps = "polls env" and k = j and flags = "[]", OF run ob fc'] ne
    by simp
  with eq skip have "result (waitForCode env m sender mw t) = Code (code v)" by simp
  with v(1,2) fc' show "\<exists>v\<in>set (candidates t msgs).
          (\<forall>w\<in>set (candidates t msgs). emailDate w \<le> emailDate v)
          \<and> findCode (imap (polls env j)) sender t = (Some (Resolved (Some (code v))), [uid v])
          \<and> result (waitForCode env m sender mw t) = Code (code v)"
    by blast
next
  assume res: "result (waitForCode env m sender mw t) = Code c"
  then have "result (checkEmail (polls env) sender mw t (startTime env) 0 (startTime env) []) = Code c"
    by (auto simp: waitForCode_def split: prod.splits option.splits)
  from checkEmail_Code_round[OF this]
  show "\<exists>j' rs' msgs' rest' v.
          (\<forall>i<j'. openInbox (imap (polls env i)) = None
                 \<and> fst (findCode (imap (polls env i)) sender t) = Some (Resolved None))
          \<and> openInbox (imap (polls env j')) = None
          \<and> search (imap (polls env j')) sender = SearchResults rs' \<and> rs' \<noteq> []
          \<and> fetch (imap (polls env j')) rs' = map Body msgs' @ rest' \<and> length msgs' = length rs'
          \<and> v \<in> set (candidates t msgs')
          \<and> (\<forall>w\<in>set (candidates t msgs'). emailDate w \<le> emailDate v)
          \<and> findCode (imap (polls env j')) sender t = (Some (Resolved (Some c)), [uid v])
          \<and> c = code v"
    by simp
qed

theorem latest_candidate_wins_witness:
  "candidates None [received 4 (js ''Expensify magic code: 111111'') 1000 [],
                    received 9 (js ''Expensify magic code: 333333'') 3000 [],
                    received 6 (js ''Expensify magic code: 222222'') 2000 []]
     = [\<lparr>uid = 4, code = js ''111111'', emailDate = 1000\<rparr>,
        \<lparr>uid = 9, code = js ''333333'', emailDate = 3000\<rparr>,
        \<lparr>uid = 6, code = js ''222222'', emailDate = 2000\<rparr>]
   \<and> findCode (deliver [received 4 (js ''Expensify magic code: 111111'') 1000 [],
                         received 9 (js ''Expensify magic code: 333333'') 3000 [],
                         received 6 (js ''Expensify magic code: 222222'') 2000 []])
        (js ''concierge@expensify.com'') None = (Some (Resolved (Some (js ''333333''))), [9])
   \<and> result (waitForCode
        (mailbox 0 (\<lambda>k. if k < 2 then []
                         else [received 4 (js ''Expensify magic code: 111111'') 1000 [],
                               received 9 (js ''Expensify magic code: 333333'') 3000 [],
                               received 6 (js ''Expensify magic code: 222222'') 2000 []]))
        (newEmailMonitor \<lparr>user = js ''me@x.org'', password = [], host = [], port = 993, tls = True\<rparr>)
        (js ''concierge@expensify.com'') 60000 None) = Code (js ''333333'')"
proof -
  let ?msgs = "[received 4 (js ''Expensify magic code: 111111'') 1000 [],
                received 9 (js ''Expensify magic code: 333333'') 3000 [],
                received 6 (js ''Expensify magic code: 222222'') 2000 []]"
  let ?env = "mailbox 0 (\<lambda>k. if k < 2 then [] else ?msgs)"
  let ?m = "newEmailMonitor \<lparr>user = js ''me@x.org'', password = [], host = [], port = 993, tls = True\<rparr>"
  let ?f = "js ''concierge@expensify.com''"
  have c: "candidates None ?msgs
     = [\<lparr>uid = 4, code = js ''111111'', emailDate = 1000\<rparr>,
        \<lparr>uid = 9, code = js ''333333'', emailDate = 3000\<rparr>,
        \<lparr>uid = 6, code = js ''222222'', emailDate = 2000\<rparr>]"
    by (simp add: run_defs eval_defs)
  have h: "fst (connect ?env ?m) = None
      \<and> (\<forall>i<2. openInbox (imap (polls ?env i)) = None
                 \<and> fst (findCode (imap (polls ?env i)) ?f None) = Some (Resolved None))
      \<and> (\<Sum>i<2. int (duration (polls ?env i)) + 2000) \<le> 60000
      \<and> openInbox (imap (polls ?env 2)) = None
      \<and> search (imap (polls ?env 2)) ?f = SearchResults [4, 9, 6] \<and> [4, 9, 6] \<noteq> ([] :: nat list)
      \<and> fetch (imap (polls ?env 2)) [4, 9, 6] = map Body ?msgs @ [] \<and> length ?msgs = length [4, 9, 6 :: nat]
      \<and> candidates None ?msgs \<noteq> []"
    unfolding c
    by (simp add: connect_def newEmailMonitor_def mailbox_def deliver_def openInbox_def
        findCode_def received_def numeral_2_eq_2 lessThan_Suc)
  from latest_candidate_wins
    [where env = ?env and m = ?m and sender = ?f and t = None and j = 2 and mw = 60000
       and rs = "[4, 9, 6]" and msgs = ?msgs and rest = "[]"
       and srv = "deliver ?msgs" and rs0 = "[4, 9, 6]" and msgs0 = ?msgs and rest0 = "[]"] h
  have "\<exists>v\<in>set (candidates None ?msgs).
          (\<forall>w\<in>set (candidates None ?msgs). emailDate w \<le> emailDate v)
          \<and> findCode (imap (polls ?env 2)) ?f None = (Some (Resolved (Some (code v))), [uid v])
          \<and> result (waitForCode ?env ?m ?f 60000 None) = Code (code v)"
    by blast
  then have "findCode (imap (polls ?env 2)) ?f None = (Some (Resolved (Some (js ''333333''))), [9])
          \<and> result (waitForCode ?env ?m ?f 60000 None) = Code (js ''333333'')"
    unfolding c by auto
  then show ?thesis using c by (simp add: mailbox_def)
qed

text \<open>
  C3: when \<^verbatim>\<open>waitForCode\<close> returns a code, the invocation has called \<^verbatim>\<open>addFlags\<close>
  exactly once, for the UID of the selected entry, a latest entry of the cycle that
  resolved it; when it fails with the timeout error, it has made no \<^verbatim>\<open>addFlags\<close> call.
\<close>

theorem one_flag_on_success_none_on_timeout:
  "(result (waitForCode env m sender mw t) = Code c \<longrightarrow>
      (\<exists>j rs msgs rest v. search (imap (polls env j)) sender = SearchResults rs \<and> rs \<noteq> []
          \<and> fetch (imap (polls env j)) rs = map Body msgs @ rest \<and> length msgs = length rs
          \<and> v \<in> set (candidates t msgs)
          \<and> (\<forall>w\<in>set (candidates t msgs). emailDate w \<le> emailDate v)
          \<and> c = code v
          \<and> flagged (waitForCode env m sender mw t) = [uid v]))
   \<and> (result (waitForCode env m sender mw t) = Failed TimeoutWaitingForEmail \<longrightarrow>
        flagged (waitForCode env m sender mw t) = [])"
proof (intro conjI impI)
  assume res: "result (waitForCode env m sender mw t) = Code c"
  then have eq: "waitForCode env m sender mw t =
      checkEmail (polls env) sender mw t (startTime env) 0 (startTime env) []"
    by (auto simp: waitForCode_def split: prod.splits option.splits)
  with res have "result (checkEmail (polls env) sender mw t (startTime env) 0 (startTime env) []) = Code c"
    by simp
  from checkEmail_Code[OF this] show "\<exists>j rs msgs rest v. search (imap (polls env j)) sender = SearchResults rs \<and> rs \<noteq> []
          \<and> fetch (imap (polls env j)) rs = map Body msgs @ rest \<and> length msgs = length rs
          \<and> v \<in> set (candidates t msgs)
          \<and> (\<forall>w\<in>set (candidates t msgs). emailDate w \<le> emailDate v)
          \<and> c = code v
          \<and> flagged (waitForCode env m sender mw t) = [uid v]"
    unfolding eq by simp
next
  assume res: "result (waitForCode env m sender mw t) = Failed TimeoutWaitingForEmail"
  show "flagged (waitForCode env m sender mw t) = []"
  proof (cases "fst (connect env m)")
    case (Some e)
    then show ?thesis by (auto simp: waitForCode_def split: prod.splits option.splits)
  next
    case None
    then have eq: "waitForCode env m sender mw t =
        checkEmail (polls env) sender mw t (startTime env) 0 (startTime env) []"
      by (auto simp: waitForCode_def split: prod.splits option.splits)
    with res have "\<forall>c. result (checkEmail (polls env) sender mw t (startTime env) 0 (startTime env) []) \<noteq> Code c"
      by simp
    from checkEmail_no_Code[OF this] show ?thesis unfolding eq .
  qed
qed

theorem one_flag_on_success_none_on_timeout_witness:
  "waitForCode
        (mailbox 0 (\<lambda>k. if k < 2 then []
                         else [received 4 (js ''Expensify magic code: 111111'') 1000 [],
                               received 9 (js ''Expensify magic code: 333333'') 3000 [],
                               received 6 (js ''Expensify magic code: 222222'') 2000 []]))
        (newEmailMonitor \<lparr>user = js ''me@x.org'', password = [], host = [], port = 993, tls = True\<rparr>)
        (js ''concierge@expensify.com'') 60000 None
     = \<lparr>result = Code (js ''333333''), endTime = 4000, flagged = [9]\<rparr>
   \<and> waitForCode
        (mailbox 0 (\<lambda>k. [received 4 (js ''Welcome'') 1000 (js ''no code here'')]))
        (newEmailMonitor \<lparr>user = js ''me@x.org'', password = [], host = [], port = 993, tls = True\<rparr>)
        (js ''concierge@expensify.com'') 5000 None
     = \<lparr>result = Failed TimeoutWaitingForEmail, endTime = 6000, flagged = []\<rparr>"
  using one_flag_on_success_none_on_timeout
    [where env = "mailbox 0 (\<lambda>k. if k < 2 then []
                         else [received 4 (js ''Expensify magic code: 111111'') 1000 [],
                               received 9 (js ''Expensify magic code: 333333'') 3000 [],
                               received 6 (js ''Expensify magic code: 222222'') 2000 []])"
       and m = "newEmailMonitor \<lparr>user = js ''me@x.org'', password = [], host = [], port = 993, tls = True\<rparr>"
       and sender = "js ''concierge@expensify.com''" and mw = 60000 and t = None
       and c = "js ''333333''"]
    one_flag_on_success_none_on_timeout
    [where env = "mailbox 0 (\<lambda>k. [received 4 (js ''Welcome'') 1000 (js ''no code here'')])"
       and m = "newEmailMonitor \<lparr>user = js ''me@x.org'', password = [], host = [], port = 993, tls = True\<rparr>"
       and sender = "js ''concierge@expensify.com''" and mw = 5000 and t = None]
  by (simp add: run_defs eval_defs)




subsection \<open>The message behind a code\<close>

lemma codeMatch_nonempty: "codeMatch s = Some c \<Longrightarrow> c \<noteq> []"
  by (induction s) (auto simp: codeMatchHere_def Let_def split: if_splits option.splits)

lemma bodyCodeMatch_length: "bodyCodeMatch s = Some c \<Longrightarrow> length c = 6"
  by (induction s) (auto simp: sixDigitsHere_def split: if_splits)

lemma extractCode_nonempty: "extractCode p = Some c \<Longrightarrow> c \<noteq> []"
  by (auto simp: extractCode_def split: option.splits
      dest: codeMatch_nonempty bodyCodeMatch_length)

lemma onBody_stale:
  "parsed msg = Parsed p \<Longrightarrow> date p = Some d \<Longrightarrow> d < T \<Longrightarrow>
   onBody (Some T) msg s = finishIfLast (decrement s)"
  by (simp add: onBody_def beforeSince_def split: option.splits)

lemma candidate_stale:
  "parsed msg = Parsed p \<Longrightarrow> date p = Some d \<Longrightarrow> d < T \<Longrightarrow> candidate (Some T) msg = None"
  by (simp add: candidate_def beforeSince_def split: option.splits)

lemma findCode_winner_message:
  assumes "findCode srv sender t = (Some (Resolved (Some c)), fl)"
  shows "\<exists>rs msg p d u. search srv sender = SearchResults rs \<and> Body msg \<in> set (fetch srv rs)
           \<and> parsed msg = Parsed p \<and> extractCode p = Some c \<and> date p = Some d
           \<and> \<not> beforeSince t (Some d) \<and> attrs_uid msg = Some u \<and> fl = [u]"
proof -
  from findCode_shape[OF assms]
  obtain rs msgs rest v where h: "search srv sender = SearchResults rs"
      "fetch srv rs = map Body msgs @ rest" "v \<in> set (candidates t msgs)"
      "c = code v" "fl = [uid v]"
    by auto
  from h(3) obtain msg where msg: "msg \<in> set msgs" "candidate t msg = Some v"
    by (auto simp: set_candidates)
  from candidate_SomeD(3,4,5)[OF msg(2)] obtain p where p: "attrs_uid msg = Some (uid v)"
      "parsed msg = Parsed p" "date p = Some (emailDate v)" "extractCode p = Some (code v)"
      "\<not> beforeSince t (Some (emailDate v))"
    by auto
  have "Body msg \<in> set (fetch srv rs)" using msg(1) h(2) by simp
  with h p have "search srv sender = SearchResults rs \<and> Body msg \<in> set (fetch srv rs)
           \<and> parsed msg = Parsed p \<and> extractCode p = Some c \<and> date p = Some (emailDate v)
           \<and> \<not> beforeSince t (Some (emailDate v)) \<and> attrs_uid msg = Some (uid v) \<and> fl = [uid v]"
    by simp
  then show ?thesis by (intro exI)
qed

text \<open>
  C2: with \<^verbatim>\<open>sinceTime\<close> set to \<open>T\<close>, the handler of a message dated before \<open>T\<close> only
  decrements the counter, whatever code the message holds, so the message is no entry; a
  code that \<^verbatim>\<open>findCode\<close> resolves with comes from a fetched message dated \<open>T\<close> or later,
  the one that is flagged. With one message 5 s before \<open>T\<close> (code 111111) and one 5 s
  after (code 222222), in either order, \<^verbatim>\<open>waitForCode\<close> returns 222222.
\<close>

theorem since_filter:
  "(parsed msg = Parsed p \<and> date p = Some d \<and> d < T \<longrightarrow>
      onBody (Some T) msg s = finishIfLast (decrement s) \<and> candidate (Some T) msg = None)
   \<and> (findCode srv sender (Some T) = (Some (Resolved (Some c)), fl) \<longrightarrow>
        (\<exists>rs msg' p' d' u. search srv sender = SearchResults rs \<and> Body msg' \<in> set (fetch srv rs)
           \<and> parsed msg' = Parsed p' \<and> extractCode p' = Some c \<and> date p' = Some d'
           \<and> T \<le> d' \<and> attrs_uid msg' = Some u \<and> fl = [u]))
   \<and> waitForCode
        (mailbox t0 (\<lambda>k. [received 1 (js ''Expensify magic code: 111111'') (T - 5000) [],
                           received 2 (js ''Expensify magic code: 222222'') (T + 5000) []]))
        (newEmailMonitor cfg) sender 60000 (Some T)
       = \<lparr>result = Code (js ''222222''), endTime = t0, flagged = [2]\<rparr>
   \<and> waitForCode
        (mailbox t0 (\<lambda>k. [received 2 (js ''Expensify magic code: 222222'') (T + 5000) [],
                           received 1 (js ''Expensify magic code: 111111'') (T - 5000) []]))
        (newEmailMonitor cfg) sender 60000 (Some T)
       = \<lparr>result = Code (js ''222222''), endTime = t0, flagged = [2]\<rparr>"
proof (intro conjI impI)
  assume "parsed msg = Parsed p \<and> date p = Some d \<and> d < T"
  then show "onBody (Some T) msg s = finishIfLast (decrement s)"
    by (simp add: onBody_stale)
next
  assume "parsed msg = Parsed p \<and> date p = Some d \<and> d < T"
  then show "candidate (Some T) msg = None"
    by (simp add: candidate_stale)
next
  assume "findCode srv sender (Some T) = (Some (Resolved (Some c)), fl)"
  from findCode_winner_message[OF this]
  show "\<exists>rs msg' p' d' u. search srv sender = SearchResults rs \<and> Body msg' \<in> set (fetch srv rs)
           \<and> parsed msg' = Parsed p' \<and> extractCode p' = Some c \<and> date p' = Some d'
           \<and> T \<le> d' \<and> attrs_uid msg' = Some u \<and> fl = [u]"
    by (simp add: beforeSince_def not_less)
next
  show "waitForCode
        (mailbox t0 (\<lambda>k. [received 1 (js ''Expensify magic code: 111111'') (T - 5000) [],
                           received 2 (js ''Expensify magic code: 222222'') (T + 5000) []]))
        (newEmailMonitor cfg) sender 60000 (Some T)
       = \<lparr>result = Code (js ''222222''), endTime = t0, flagged = [2]\<rparr>"
    by (simp add: run_defs eval_defs)
next
  show "waitForCode
        (mailbox t0 (\<lambda>k. [received 2 (js ''Expensify magic code: 222222'') (T + 5000) [],
                           received 1 (js ''Expensify magic code: 111111'') (T - 5000) []]))
        (newEmailMonitor cfg) sender 60000 (Some T)
       = \<lparr>result = Code (js ''222222''), endTime = t0, flagged = [2]\<rparr>"
    by (simp add: run_defs eval_defs)
qed

theorem since_filter_witness:
  "parsed (received 1 (js ''Expensify magic code: 111111'') 995000 []) =
       Parsed \<lparr>subject = Some (js ''Expensify magic code: 111111''), date = Some 995000,
               text_part = Some [], html = None\<rparr>
   \<and> (995000 :: int) < 1000000
   \<and> extractCode \<lparr>subject = Some (js ''Expensify magic code: 111111''), date = Some 995000,
               text_part = Some [], html = None\<rparr> = Some (js ''111111'')
   \<and> candidate (Some 1000000) (received 1 (js ''Expensify magic code: 111111'') 995000 []) = None
   \<and> findCode (deliver [received 1 (js ''Expensify magic code: 111111'') 995000 [],
                         received 2 (js ''Expensify magic code: 222222'') 1005000 []])
        (js ''concierge@expensify.com'') (Some 1000000)
       = (Some (Resolved (Some (js ''222222''))), [2])"
  using since_filter
    [where msg = "received 1 (js ''Expensify magic code: 111111'') 995000 []"
       and p = "\<lparr>subject = Some (js ''Expensify magic code: 111111''), date = Some 995000,
               text_part = Some [], html = None\<rparr>"
       and d = 995000 and T = 1000000
       and srv = "deliver [received 1 (js ''Expensify magic code: 111111'') 995000 [],
                         received 2 (js ''Expensify magic code: 222222'') 1005000 []]"
       and sender = "js ''concierge@expensify.com''" and c = "js ''222222''" and fl = "[2]"]
  by (simp add: run_defs eval_defs)

text \<open>
  C7, as the specification states it, fails: \<^verbatim>\<open>findCode\<close> catches the failure of
  \<^verbatim>\<open>simpleParser\<close>, logs it and goes on. With an unparsable message and a good one in
  the inbox, \<^verbatim>\<open>waitForCode\<close> returns the code of the good one.
\<close>

theorem parse_failure_does_not_fail_waitForCode:
  "parsed (unparsable 7) = ParseError
   \<and> waitForCode
        (mailbox 0 (\<lambda>k. [unparsable 7, received 8 (js ''Expensify magic code: 147826'') 1000 []]))
        (newEmailMonitor \<lparr>user = js ''me@x.org'', password = [], host = js ''imap.gmail.com'',
                          port = 993, tls = True\<rparr>)
        (js ''concierge@expensify.com'') 60000 None
       = \<lparr>result = Code (js ''147826''), endTime = 0, flagged = [8]\<rparr>"
  by (simp add: run_defs eval_defs)

lemma candidates_all_unparsable:
  "\<forall>msg\<in>set msgs. parsed msg = ParseError \<Longrightarrow> candidates t msgs = []"
  by (induction msgs)
     (auto simp: candidates_def candidate_def List.map_filter_simps split: option.splits)

lemma connect_error_kinds:
  assumes "\<not> connected m" and "connectError env = Some (err, etext)"
  shows "fst (connect env m) =
           Some (if isAppPasswordError etext then AppPasswordRequired
                 else if isAuthenticationError etext then AuthenticationFailed
                 else err)"
  using assms by (simp add: connect_def)

lemma waitForCode_connect_error:
  "fst (connect env m) = Some e \<Longrightarrow> result (waitForCode env m sender mw t) = Failed e"
  by (auto simp: waitForCode_def split: prod.splits option.splits)

lemmas connect_defs = isAppPasswordError_def isAuthenticationError_def js_def startsWith_def
  newEmailMonitor_def

text \<open>
  C7, amended: every network failure that is not covered by a more specific error kind
  propagates to the caller as the failure of \<^verbatim>\<open>waitForCode\<close> with that very error: the
  error of the connection when its text shows neither an app-password nor an
  authentication failure, and in a round that runs the error of \<^verbatim>\<open>openBox\<close>, of the
  search, and of the fetch when it comes before the last body. The two specific kinds of
  connection failure make \<^verbatim>\<open>waitForCode\<close> fail with their own errors. The failure to
  parse a fetched message is caught: its handler only decrements the counter, the message
  is no entry, and a cycle in which no message can be parsed resolves with null, so that
  the polling goes on.
\<close>

theorem network_errors_propagate_parse_errors_are_skipped:
  "(\<not> connected m \<and> connectError env = Some (err, etext)
        \<and> \<not> isAppPasswordError etext \<and> \<not> isAuthenticationError etext \<longrightarrow>
        result (waitForCode env m sender mw t) = Failed err)
   \<and> (\<not> connected m \<and> connectError env = Some (err, etext) \<and> isAppPasswordError etext \<longrightarrow>
        result (waitForCode env m sender mw t) = Failed AppPasswordRequired)
   \<and> (\<not> connected m \<and> connectError env = Some (err, etext)
        \<and> \<not> isAppPasswordError etext \<and> isAuthenticationError etext \<longrightarrow>
        result (waitForCode env m sender mw t) = Failed AuthenticationFailed)
   \<and> (\<not> mw < now - start \<and> openInbox (imap (ps k)) = Some e \<longrightarrow>
        result (checkEmail ps sender mw t start k now flags) = Failed e)
   \<and> (\<not> mw < now - start \<and> openInbox (imap (ps k)) = None
        \<and> search (imap (ps k)) sender = SearchError e \<longrightarrow>
        result (checkEmail ps sender mw t start k now flags) = Failed e)
   \<and> (\<not> mw < now - start \<and> openInbox (imap (ps k)) = None
        \<and> search (imap (ps k)) sender = SearchResults rs
        \<and> fetch (imap (ps k)) rs = map Body msgs @ FetchError e # rest
        \<and> length msgs < length rs \<longrightarrow>
        result (checkEmail ps sender mw t start k now flags) = Failed e)
   \<and> (parsed msg = ParseError \<longrightarrow>
        onBody t msg s = finishIfLast (decrement s) \<and> candidate t msg = None)
   \<and> (search srv sender = SearchResults rs \<and> rs \<noteq> [] \<and> fetch srv rs = map Body msgs
        \<and> length msgs = length rs \<and> (\<forall>x\<in>set msgs. parsed x = ParseError) \<longrightarrow>
        findCode srv sender t = (Some (Resolved None), []))"
proof (intro conjI impI)
  assume h: "\<not> connected m \<and> connectError env = Some (err, etext)
        \<and> \<not> isAppPasswordError etext \<and> \<not> isAuthenticationError etext"
  then have "fst (connect env m) = Some err"
    using connect_error_kinds[of m env err etext] by simp
  then show "result (waitForCode env m sender mw t) = Failed err"
    by (rule waitForCode_connect_error)
next
  assume h: "\<not> connected m \<and> connectError env = Some (err, etext) \<and> isAppPasswordError etext"
  then have "fst (connect env m) = Some AppPasswordRequired"
    using connect_error_kinds[of m env err etext] by simp
  then show "result (waitForCode env m sender mw t) = Failed AppPasswordRequired"
    by (rule waitForCode_connect_error)
next
  assume h: "\<not> connected m \<and> connectError env = Some (err, etext)
        \<and> \<not> isAppPasswordError etext \<and> isAuthenticationError etext"
  then have "fst (connect env m) = Some AuthenticationFailed"
    using connect_error_kinds[of m env err etext] by simp
  then show "result (waitForCode env m sender mw t) = Failed AuthenticationFailed"
    by (rule waitForCode_connect_error)
next
  assume "\<not> mw < now - start \<and> openInbox (imap (ps k)) = Some e"
  then show "result (checkEmail ps sender mw t start k now flags) = Failed e"
    by (simp add: checkEmail_openInbox_error)
next
  assume h: "\<not> mw < now - start \<and> openInbox (imap (ps k)) = None
        \<and> search (imap (ps k)) sender = SearchError e"
  then have fc: "findCode (imap (ps k)) sender t = (Some (Rejected e), [])"
    by (simp add: findCode_def)
  from h have run: "\<not> mw < now - start" and ob: "openInbox (imap (ps k)) = None" by simp_all
  show "result (checkEmail ps sender mw t start k now flags) = Failed e"
    using checkEmail_round[where ps=ps and k=k and flags=flags, OF run ob fc] by simp
next
  assume h: "\<not> mw < now - start \<and> openInbox (imap (ps k)) = None
        \<and> search (imap (ps k)) sender = SearchResults rs
        \<and> fetch (imap (ps k)) rs = map Body msgs @ FetchError e # rest
        \<and> length msgs < length rs"
  then have fc: "findCode (imap (ps k)) sender t = (Some (Rejected e), [])"
    by (intro findCode_fetch_error[where msgs = msgs and rest = rest and rs = rs]) simp_all
  from h have run: "\<not> mw < now - start" and ob: "openInbox (imap (ps k)) = None" by simp_all
  show "result (checkEmail ps sender mw t start k now flags) = Failed e"
    using checkEmail_round[where ps=ps and k=k and flags=flags, OF run ob fc] by simp
next
  assume "parsed msg = ParseError"
  then show "onBody t msg s = finishIfLast (decrement s)"
    by (simp add: onBody_def split: option.splits)
next
  assume "parsed msg = ParseError"
  then show "candidate t msg = None"
    by (simp add: candidate_def split: option.splits)
next
  assume h: "search srv sender = SearchResults rs \<and> rs \<noteq> [] \<and> fetch srv rs = map Body msgs
        \<and> length msgs = length rs \<and> (\<forall>x\<in>set msgs. parsed x = ParseError)"
  then have "candidates t msgs = []" by (simp add: candidates_all_unparsable)
  moreover have "findCode srv sender t =
      (Some (fst (selectBest (candidates t msgs))), snd (selectBest (candidates t msgs)))"
    using h by (intro findCode_bodies[where rest = "[]"]) simp_all
  ultimately show "findCode srv sender t = (Some (Resolved None), [])"
    by (simp add: selectBest_def)
qed

theorem network_errors_propagate_parse_errors_are_skipped_witness:
  "result (waitForCode \<lparr>connectError = Some (External 4, js ''connect ECONNREFUSED''),
                        startTime = 0, polls = (\<lambda>k. \<lparr>imap = deliver [], duration = 0\<rparr>)\<rparr>
             (newEmailMonitor \<lparr>user = js ''me@x.org'', password = [], host = [], port = 993, tls = True\<rparr>)
             (js ''concierge@expensify.com'') 60000 None) = Failed (External 4)
   \<and> result (waitForCode \<lparr>connectError = Some (External 5, js ''[ALERT] Please log in via your web browser (Failure 185833)''),
                        startTime = 0, polls = (\<lambda>k. \<lparr>imap = deliver [], duration = 0\<rparr>)\<rparr>
             (newEmailMonitor \<lparr>user = js ''me@x.org'', password = [], host = [], port = 993, tls = True\<rparr>)
             (js ''concierge@expensify.com'') 60000 None) = Failed AppPasswordRequired
   \<and> result (waitForCode \<lparr>connectError = Some (External 6, js ''Invalid credentials (Failure)''),
                        startTime = 0, polls = (\<lambda>k. \<lparr>imap = deliver [], duration = 0\<rparr>)\<rparr>
             (newEmailMonitor \<lparr>user = js ''me@x.org'', password = [], host = [], port = 993, tls = True\<rparr>)
             (js ''concierge@expensify.com'') 60000 None) = Failed AuthenticationFailed
   \<and> result (checkEmail (\<lambda>k. \<lparr>imap = \<lparr>openBox = Some (External 1), search = (\<lambda>f. SearchResults []),
                                      fetch = (\<lambda>r. [])\<rparr>, duration = 0\<rparr>)
             (js ''concierge@expensify.com'') 60000 None 0 0 0 []) = Failed (External 1)
   \<and> result (checkEmail (\<lambda>k. \<lparr>imap = \<lparr>openBox = None, search = (\<lambda>f. SearchError (External 2)),
                                      fetch = (\<lambda>r. [])\<rparr>, duration = 0\<rparr>)
             (js ''concierge@expensify.com'') 60000 None 0 0 0 []) = Failed (External 2)
   \<and> result (checkEmail (\<lambda>k. \<lparr>imap = \<lparr>openBox = None, search = (\<lambda>f. SearchResults [5, 6]),
                                      fetch = (\<lambda>r. [Body (unparsable 5), FetchError (External 3)])\<rparr>,
                               duration = 0\<rparr>)
             (js ''concierge@expensify.com'') 60000 None 0 0 0 []) = Failed (External 3)
   \<and> parsed (unparsable 5) = ParseError
   \<and> findCode (deliver [unparsable 5, unparsable 6]) (js ''concierge@expensify.com'') None
       = (Some (Resolved None), [])"
  using network_errors_propagate_parse_errors_are_skipped
    [where env = "\<lparr>connectError = Some (External 4, js ''connect ECONNREFUSED''),
                        startTime = 0, polls = (\<lambda>k. \<lparr>imap = deliver [], duration = 0\<rparr>)\<rparr>"
       and m = "newEmailMonitor \<lparr>user = js ''me@x.org'', password = [], host = [], port = 993, tls = True\<rparr>"
       and err = "External 4" and etext = "js ''connect ECONNREFUSED''"
       and sender = "js ''concierge@expensify.com''" and mw = 60000 and t = None]
    network_errors_propagate_parse_errors_are_skipped
    [where env = "\<lparr>connectError = Some (External 5, js ''[ALERT] Please log in via your web browser (Failure 185833)''),
                        startTime = 0, polls = (\<lambda>k. \<lparr>imap = deliver [], duration = 0\<rparr>)\<rparr>"
       and m = "newEmailMonitor \<lparr>user = js ''me@x.org'', password = [], host = [], port = 993, tls = True\<rparr>"
       and err = "External 5" and etext = "js ''[ALERT] Please log in via your web browser (Failure 185833)''"
       and sender = "js ''concierge@expensify.com''" and mw = 60000 and t = None]
    network_errors_propagate_parse_errors_are_skipped
    [where env = "\<lparr>connectError = Some (External 6, js ''Invalid credentials (Failure)''),
                        startTime = 0, polls = (\<lambda>k. \<lparr>imap = deliver [], duration = 0\<rparr>)\<rparr>"
       and m = "newEmailMonitor \<lparr>user = js ''me@x.org'', password = [], host = [], port = 993, tls = True\<rparr>"
       and err = "External 6" and etext = "js ''Invalid credentials (Failure)''"
       and sender = "js ''concierge@expensify.com''" and mw = 60000 and t = None]
    network_errors_propagate_parse_errors_are_skipped
    [where ps = "\<lambda>k. \<lparr>imap = \<lparr>openBox = Some (External 1), search = (\<lambda>f. SearchResults []),
                                      fetch = (\<lambda>r. [])\<rparr>, duration = 0\<rparr>"
       and e = "External 1" and mw = 60000 and now = 0 and start = 0 and k = 0
       and sender = "js ''concierge@expensify.com''" and t = None and flags = "[]"]
    network_errors_propagate_parse_errors_are_skipped
    [where ps = "\<lambda>k. \<lparr>imap = \<lparr>openBox = None, search = (\<lambda>f. SearchError (External 2)),
                                      fetch = (\<lambda>r. [])\<rparr>, duration = 0\<rparr>"
       and e = "External 2" and mw = 60000 and now = 0 and start = 0 and k = 0
       and sender = "js ''concierge@expensify.com''" and t = None and flags = "[]"]
    network_errors_propagate_parse_errors_are_skipped
    [where ps = "\<lambda>k. \<lparr>imap = \<lparr>openBox = None, search = (\<lambda>f. SearchResults [5, 6]),
                                      fetch = (\<lambda>r. [Body (unparsable 5), FetchError (External 3)])\<rparr>,
                               duration = 0\<rparr>"
       and e = "External 3" and mw = 60000 and now = 0 and start = 0 and k = 0
       and sender = "js ''concierge@expensify.com''" and t = None and flags = "[]"
       and rs = "[5, 6]" and msgs = "[unparsable 5]" and rest = "[]"]
    network_errors_propagate_parse_errors_are_skipped
    [where msg = "unparsable 5" and srv = "deliver [unparsable 5, unparsable 6]"
       and sender = "js ''concierge@expensify.com''" and t = None
       and rs = "[5, 6]" and msgs = "[unparsable 5, unparsable 6]"]
  by (simp add: openInbox_def deliver_def unparsable_def connect_defs)

section \<open>The claims about the orchestrator\<close>

lemma connect_again:
  "connect env m = (None, m') \<Longrightarrow> connect env m' = (None, m')"
  by (auto simp: connect_def split: if_splits option.splits)

lemma waitForCode_single_message:
  assumes "connect env m = (None, m)"
    and "imap (polls env 0) = deliver [msg]"
    and "attrs_uid msg = Some u" and "u \<noteq> 0" and "parsed msg = Parsed p"
    and "date p = Some d" and "extractCode p = Some cd" and "\<not> beforeSince t (Some d)"
    and "0 \<le> mw"
  shows "result (waitForCode env m sender mw t) = Code cd"
    and "flagged (waitForCode env m sender mw t) = [u]"
proof -
  let ?srv = "imap (polls env 0)"
  have ne: "cd \<noteq> []" using assms(7) by (rule extractCode_nonempty)
  have cand: "candidates t [msg] = [\<lparr>uid = u, code = cd, emailDate = d\<rparr>]"
    using assms(3-8) ne by (simp add: candidates_def candidate_def List.map_filter_simps)
  have "findCode ?srv sender t =
      (Some (fst (selectBest (candidates t [msg]))), snd (selectBest (candidates t [msg])))"
    using assms(2) by (intro findCode_bodies[where rs = "[seqno msg]" and rest = "[]"])
                      (simp_all add: deliver_def)
  then have fc: "findCode ?srv sender t = (Some (Resolved (Some cd)), [u])"
    using cand assms(4) by (simp add: selectBest_def sortByDateDesc_def)
  have run: "\<not> mw < startTime env - startTime env" using assms(9) by simp
  have ob: "openInbox ?srv = None" using assms(2) by (simp add: openInbox_def deliver_def)
  have "checkEmail (polls env) sender mw t (startTime env) 0 (startTime env) [] =
      \<lparr>result = Code cd, endTime = startTime env + int (duration (polls env 0)), flagged = [u]\<rparr>"
    using checkEmail_round[where ps="polls env" and k=0 and flags="[]", OF run ob fc] ne by simp
  then show "result (waitForCode env m sender mw t) = Code cd"
    and "flagged (waitForCode env m sender mw t) = [u]"
    using assms(1) by (simp_all add: waitForCode_def)
qed

lemmas login_defs = login_def newAutoLogin_def smoothWorld_def loginForm_def enterEmail_def
  emailSelectors_def submitSelectors_def Let_def

lemma enterEmail_fills_first_selector:
  "findEmailInput p emailSelectors \<Longrightarrow> fillError p (emailSelectors ! 0) = None \<Longrightarrow>
   Fill (emailSelectors ! 0) a \<in> set (snd (enterEmail (Some p) a))"
  by (auto simp: enterEmail_def split: option.splits)

text \<open>
  C9: for an address \<open>u+tg@d\<close> (\<open>u\<close> without a plus sign, \<open>tg\<close> not empty and without an at
  sign), the monitor is built for the account \<open>u@d\<close> and \<^verbatim>\<open>login\<close> first asks that
  monitor to connect. Every \<^verbatim>\<open>enterEmail\<close> call of \<^verbatim>\<open>login\<close> gets the address as
  configured and fills nothing else into the page; the call is made when the connection,
  the browser start and the navigation succeed; and when moreover a selector finds the
  email input and the fill succeeds, the call fills the address as configured into the
  page.
\<close>

theorem tag_stripped_for_mailbox_only:
  assumes "plusSign \<notin> set u" and "tg \<noteq> []" and "atSign \<notin> set tg"
    and "email c = u @ plusSign # tg @ atSign # d"
  shows "user (monitorConfig (emailMonitor (newAutoLogin c))) = u @ atSign # d
     \<and> (\<exists>rest. calls (login w (newAutoLogin c)) = Connect (u @ atSign # d) # rest)
     \<and> (\<forall>a acts. EnterEmail a acts \<in> set (calls (login w (newAutoLogin c))) \<longrightarrow>
           a = u @ plusSign # tg @ atSign # d
           \<and> (\<forall>sel txt. Fill sel txt \<in> set acts \<longrightarrow> txt = u @ plusSign # tg @ atSign # d))
     \<and> (fst (connect (mail w) (emailMonitor (newAutoLogin c))) = None \<and> initError w = None
         \<and> gotoError w = None \<longrightarrow>
           (\<exists>acts. EnterEmail (u @ plusSign # tg @ atSign # d) acts
                     \<in> set (calls (login w (newAutoLogin c)))))
     \<and> (fst (connect (mail w) (emailMonitor (newAutoLogin c))) = None \<and> initError w = None
         \<and> gotoError w = None
         \<and> (\<exists>sel\<in>set emailSelectors. waitForSelector (loginPage w) sel = ElementFound)
         \<and> fillError (loginPage w) (emailSelectors ! 0) = None \<longrightarrow>
           (\<exists>acts. EnterEmail (u @ plusSign # tg @ atSign # d) acts
                     \<in> set (calls (login w (newAutoLogin c)))
                  \<and> Fill (emailSelectors ! 0) (u @ plusSign # tg @ atSign # d) \<in> set acts))"
proof -
  let ?addr = "u @ plusSign # tg @ atSign # d"
  have usr: "user (monitorConfig (emailMonitor (newAutoLogin c))) = u @ atSign # d"
    using assms by (simp add: newAutoLogin_def newEmailMonitor_def stripEmailTag_tag)
  have cfg: "email (config (newAutoLogin c)) = ?addr"
    using assms(4) by (simp add: newAutoLogin_def)
  have first: "\<exists>rest. calls (login w (newAutoLogin c)) = Connect (u @ atSign # d) # rest"
    using login_first_call[of w "newAutoLogin c"] usr by simp
  have enter: "\<forall>a acts. EnterEmail a acts \<in> set (calls (login w (newAutoLogin c))) \<longrightarrow>
           a = ?addr \<and> (\<forall>sel txt. Fill sel txt \<in> set acts \<longrightarrow> txt = ?addr)"
  proof (intro allI impI)
    fix a acts assume "EnterEmail a acts \<in> set (calls (login w (newAutoLogin c)))"
    from login_EnterEmail[OF this] cfg
    have a: "a = ?addr"
      and acts: "acts = snd (enterEmail (Some (loginPage w)) a)" by simp_all
    have "\<forall>sel txt. Fill sel txt \<in> set acts \<longrightarrow> txt = a"
      using acts enterEmail_fills_address[of "Some (loginPage w)" a] by (metis prod.collapse)
    with a show "a = ?addr \<and> (\<forall>sel txt. Fill sel txt \<in> set acts \<longrightarrow> txt = ?addr)"
      by simp
  qed
  have reach_gen: "fst (connect (mail w) (emailMonitor (newAutoLogin c))) = None \<and> initError w = None
         \<and> gotoError w = None \<Longrightarrow>
       EnterEmail ?addr (snd (enterEmail (Some (loginPage w)) ?addr))
         \<in> set (calls (login w (newAutoLogin c)))"
  proof -
    assume "fst (connect (mail w) (emailMonitor (newAutoLogin c))) = None \<and> initError w = None
         \<and> gotoError w = None"
    then have "EnterEmail (email (config (newAutoLogin c)))
         (snd (enterEmail (Some (loginPage w)) (email (config (newAutoLogin c)))))
       \<in> set (calls (login w (newAutoLogin c)))"
      by (intro login_reaches_EnterEmail) simp_all
    then show ?thesis unfolding cfg .
  qed
  have reach: "fst (connect (mail w) (emailMonitor (newAutoLogin c))) = None \<and> initError w = None
         \<and> gotoError w = None \<longrightarrow>
           (\<exists>acts. EnterEmail ?addr acts \<in> set (calls (login w (newAutoLogin c))))"
  proof
    assume "fst (connect (mail w) (emailMonitor (newAutoLogin c))) = None \<and> initError w = None
         \<and> gotoError w = None"
    from reach_gen[OF this]
    show "\<exists>acts. EnterEmail ?addr acts \<in> set (calls (login w (newAutoLogin c)))"
      by (rule exI)
  qed
  have filled: "fst (connect (mail w) (emailMonitor (newAutoLogin c))) = None \<and> initError w = None
         \<and> gotoError w = None
         \<and> (\<exists>sel\<in>set emailSelectors. waitForSelector (loginPage w) sel = ElementFound)
         \<and> fillError (loginPage w) (emailSelectors ! 0) = None \<longrightarrow>
           (\<exists>acts. EnterEmail ?addr acts \<in> set (calls (login w (newAutoLogin c)))
                  \<and> Fill (emailSelectors ! 0) ?addr \<in> set acts)"
  proof
    assume h: "fst (connect (mail w) (emailMonitor (newAutoLogin c))) = None \<and> initError w = None
         \<and> gotoError w = None
         \<and> (\<exists>sel\<in>set emailSelectors. waitForSelector (loginPage w) sel = ElementFound)
         \<and> fillError (loginPage w) (emailSelectors ! 0) = None"
    then have call: "EnterEmail ?addr (snd (enterEmail (Some (loginPage w)) ?addr))
         \<in> set (calls (login w (newAutoLogin c)))"
      by (intro reach_gen) simp
    have "findEmailInput (loginPage w) emailSelectors"
      using h by (simp add: findEmailInput_iff)
    then have "Fill (emailSelectors ! 0) ?addr \<in> set (snd (enterEmail (Some (loginPage w)) ?addr))"
      using h by (intro enterEmail_fills_first_selector) simp_all
    with call have "EnterEmail ?addr (snd (enterEmail (Some (loginPage w)) ?addr))
         \<in> set (calls (login w (newAutoLogin c)))
       \<and> Fill (emailSelectors ! 0) ?addr \<in> set (snd (enterEmail (Some (loginPage w)) ?addr))"
      by simp
    then show "\<exists>acts. EnterEmail ?addr acts \<in> set (calls (login w (newAutoLogin c)))
                  \<and> Fill (emailSelectors ! 0) ?addr \<in> set acts"
      by (rule exI)
  qed
  show ?thesis by (rule conjI[OF usr conjI[OF first conjI[OF enter conjI[OF reach filled]]]])
qed

theorem tag_stripped_for_mailbox_only_witness:
  "user (monitorConfig (emailMonitor
        (newAutoLogin \<lparr>email = js ''user+tag@domain.com'', emailPassword = js ''abcdefghijklmnop'',
                       loginUrl = js ''https://new.expensify.com/'',
                       fromEmail = js ''concierge@expensify.com'',
                       headless = False, devtools = False\<rparr>))) = js ''user@domain.com''
   \<and> calls (login (smoothWorld (mailbox 0 (\<lambda>k. [])))
          (newAutoLogin \<lparr>email = js ''user+tag@domain.com'', emailPassword = js ''abcdefghijklmnop'',
                         loginUrl = js ''https://new.expensify.com/'',
                         fromEmail = js ''concierge@expensify.com'',
                         headless = False, devtools = False\<rparr>))
     = [Connect (js ''user@domain.com''), Init False False,
        NavigateToLogin (js ''https://new.expensify.com/''),
        EnterEmail (js ''user+tag@domain.com'')
          [Fill (emailSelectors ! 0) (js ''user+tag@domain.com''), Click (submitSelectors ! 0),
           WaitForTimeout 1000],
        WaitForCode (js ''concierge@expensify.com'') 60000 None,
        Disconnect]"
proof -
  have h1: "plusSign \<notin> set (js ''user'')" by (simp add: eval_defs)
  have h2: "js ''tag'' \<noteq> []" by (simp add: eval_defs)
  have h3: "atSign \<notin> set (js ''tag'')" by (simp add: eval_defs)
  have h4: "email \<lparr>email = js ''user+tag@domain.com'', emailPassword = js ''abcdefghijklmnop'',
                       loginUrl = js ''https://new.expensify.com/'',
                       fromEmail = js ''concierge@expensify.com'',
                       headless = False, devtools = False\<rparr>
            = js ''user'' @ plusSign # js ''tag'' @ atSign # js ''domain.com''"
    by (simp add: eval_defs)
  from tag_stripped_for_mailbox_only[OF h1 h2 h3 h4, of "smoothWorld (mailbox 0 (\<lambda>k. []))"]
  show ?thesis by (simp add: login_defs run_defs eval_defs)
qed

text \<open>
  C10: every \<^verbatim>\<open>waitForCode\<close> call of \<^verbatim>\<open>login\<close> has the configured sender, the bound
  60000 and no \<^verbatim>\<open>sinceTime\<close>. So when the steps before it succeed and the first round
  finds one unread message with a UID, a date \<open>d\<close> and a code, the run enters that code
  and flags that message, whatever \<open>d\<close> is.
\<close>

theorem login_passes_no_sinceTime:
  "(\<forall>f mw t. WaitForCode f mw t \<in> set (calls (login w al)) \<longrightarrow>
       f = fromEmail (config al) \<and> mw = 60000 \<and> t = None)
   \<and> (fst (connect (mail w) (emailMonitor al)) = None \<and> initError w = None \<and> gotoError w = None
       \<and> fst (enterEmail (Some (loginPage w)) (email (config al))) = Inr entered
       \<and> imap (polls (mail w) 0) = deliver [msg]
       \<and> attrs_uid msg = Some u \<and> u \<noteq> 0 \<and> parsed msg = Parsed p
       \<and> date p = Some d \<and> extractCode p = Some cd \<longrightarrow>
       EnterCode cd \<in> set (calls (login w al)) \<and> markedRead (login w al) = [u])"
proof (intro conjI impI allI)
  fix f mw t assume "WaitForCode f mw t \<in> set (calls (login w al))"
  then show "f = fromEmail (config al)" "mw = 60000" "t = None"
    using login_WaitForCode by blast+
next
  assume h: "fst (connect (mail w) (emailMonitor al)) = None \<and> initError w = None \<and> gotoError w = None
       \<and> fst (enterEmail (Some (loginPage w)) (email (config al))) = Inr entered
       \<and> imap (polls (mail w) 0) = deliver [msg]
       \<and> attrs_uid msg = Some u \<and> u \<noteq> 0 \<and> parsed msg = Parsed p
       \<and> date p = Some d \<and> extractCode p = Some cd"
  obtain m1 where c1: "connect (mail w) (emailMonitor al) = (None, m1)"
    using h by (cases "connect (mail w) (emailMonitor al)") auto
  have c2: "connect (mail w) m1 = (None, m1)" using c1 by (rule connect_again)
  obtain acts where ee: "enterEmail (Some (loginPage w)) (email (config al)) = (Inr entered, acts)"
    using h by (cases "enterEmail (Some (loginPage w)) (email (config al))") auto
  have nb: "\<not> beforeSince None (Some d)" by (simp add: beforeSince_def)
  have wf: "result (waitForCode (mail w) m1 (fromEmail (config al)) 60000 None) = Code cd"
      "flagged (waitForCode (mail w) m1 (fromEmail (config al)) 60000 None) = [u]"
    using waitForCode_single_message[OF c2, where msg = msg and u = u and p = p and d = d
        and cd = cd and t = None and mw = 60000 and sender = "fromEmail (config al)"] h nb
    by simp_all
  show "EnterCode cd \<in> set (calls (login w al))"
    using c1 ee wf h by (simp add: login_def Let_def split: option.splits)
  show "markedRead (login w al) = [u]"
    using c1 ee wf h by (simp add: login_def Let_def split: option.splits)
qed

theorem login_passes_no_sinceTime_witness:
  "calls (login (smoothWorld (mailbox 1000000000 (\<lambda>k.
              [received 3 (js ''Expensify magic code: 555555'') 0 []])))
          (newAutoLogin \<lparr>email = js ''user+tag@domain.com'', emailPassword = js ''abcdefghijklmnop'',
                         loginUrl = js ''https://new.expensify.com/'',
                         fromEmail = js ''concierge@expensify.com'',
                         headless = False, devtools = False\<rparr>))
     = [Connect (js ''user@domain.com''), Init False False,
        NavigateToLogin (js ''https://new.expensify.com/''),
        EnterEmail (js ''user+tag@domain.com'')
          [Fill (emailSelectors ! 0) (js ''user+tag@domain.com''), Click (submitSelectors ! 0),
           WaitForTimeout 1000],
        WaitForCode (js ''concierge@expensify.com'') 60000 None,
        EnterCode (js ''555555''), WaitForLoginSuccess, Disconnect]
   \<and> markedRead (login (smoothWorld (mailbox 1000000000 (\<lambda>k.
              [received 3 (js ''Expensify magic code: 555555'') 0 []])))
          (newAutoLogin \<lparr>email = js ''user+tag@domain.com'', emailPassword = js ''abcdefghijklmnop'',
                         loginUrl = js ''https://new.expensify.com/'',
                         fromEmail = js ''concierge@expensify.com'',
                         headless = False, devtools = False\<rparr>)) = [3]"
  using login_passes_no_sinceTime
    [where w = "smoothWorld (mailbox 1000000000 (\<lambda>k.
              [received 3 (js ''Expensify magic code: 555555'') 0 []]))"
       and al = "newAutoLogin \<lparr>email = js ''user+tag@domain.com'', emailPassword = js ''abcdefghijklmnop'',
                         loginUrl = js ''https://new.expensify.com/'',
                         fromEmail = js ''concierge@expensify.com'',
                         headless = False, devtools = False\<rparr>"
       and entered = True
       and msg = "received 3 (js ''Expensify magic code: 555555'') 0 []"
       and u = 3 and d = 0 and cd = "js ''555555''"
       and p = "\<lparr>subject = Some (js ''Expensify magic code: 555555''), date = Some 0,
               text_part = Some [], html = None\<rparr>"]
  by (simp add: login_defs run_defs eval_defs)

end
